theory Spec2Isabelle
  imports Complex_Main
begin

section \<open>The node of src/nodes/node.ts\<close>

text \<open>
  One call of \<open>node(nodeId, N, F, initialValue, isFaulty, ...)\<close> owns a \<open>nodeState\<close>, a
  table \<open>receivedMessages\<close> and four request handlers that matter here: \<open>/message\<close>,
  \<open>/stop\<close>, \<open>/start\<close> and the read-only \<open>/getState\<close>. JavaScript runs a handler
  without interruption up to its next \<open>await\<close>; the only awaits are the two in the round
  loop of \<open>/start\<close> (the broadcast and the 100 ms delay), one after the other with no
  code in between. The model therefore runs \<open>/start\<close> as a function that, in each round,
  takes the list of requests that the node serves while that round is waiting.
\<close>

subsection \<open>Data\<close>

text \<open>\<open>Value\<close> is \<open>0 | 1 | "?"\<close>; \<open>null\<close> is \<open>None\<close> of an option.\<close>

datatype Value = V0 | V1 | VQ

record NodeState =
  killed :: bool
  x :: "Value option"
  decided :: "bool option"
  k :: "int option"

text \<open>The parameters of \<open>node\<close> that the handlers close over.\<close>

record node_params =
  nodeId :: int
  N :: int
  F :: int
  isFaulty :: bool

text \<open>
  The mutable state of one node. \<open>receivedMessages\<close> is the \<open>Record<number, Value[]>\<close>;
  an entry holds what the bodies of the requests carried, and the body's \<open>value\<close> is the
  sender's \<open>nodeState.x\<close>, so \<open>null\<close> can be among them. \<open>sent\<close> is the log of the
  \<open>fetch\<close> calls of the broadcast: the index \<open>i\<close> of the peer (its port is
  \<open>BASE_NODE_PORT + i\<close>), and the \<open>step\<close> and \<open>value\<close> of the body.
\<close>

record node =
  nodeState :: NodeState
  receivedMessages :: "int \<rightharpoonup> Value option list"
  sent :: "(int \<times> int \<times> Value option) list"

datatype response =
    NodeIsStopped
  | Received
  | Stopped
  | FaultyNotParticipating
  | NoFinality "Value option" bool "int option"
  | Finished "Value option" "bool option" "int option"

text \<open>The state a node is created with (lines 26 to 34).\<close>

definition initial :: "bool \<Rightarrow> Value \<Rightarrow> node" where
  "initial faulty initialValue =
     \<lparr>nodeState =
        \<lparr>killed = False,
         x = (if faulty then None else Some initialValue),
         decided = (if faulty then None else Some False),
         k = (if faulty then None else Some 0)\<rparr>,
      receivedMessages = Map.empty,
      sent = []\<rparr>"

subsection \<open>The handlers /message and /stop\<close>

definition message :: "int \<Rightarrow> Value option \<Rightarrow> node \<Rightarrow> response \<times> node" where
  "message step val nd =
     (if killed (nodeState nd) then (NodeIsStopped, nd)
      else (Received,
            nd\<lparr>receivedMessages :=
                 (receivedMessages nd)
                   (step \<mapsto> (case receivedMessages nd step of None \<Rightarrow> [] | Some vs \<Rightarrow> vs) @ [val])\<rparr>))"

definition stop :: "node \<Rightarrow> response \<times> node" where
  "stop nd =
     (Stopped,
      nd\<lparr>nodeState := (nodeState nd)\<lparr>killed := True, x := None, decided := None, k := None\<rparr>\<rparr>)"

subsection \<open>The handler /start\<close>

text \<open>\<open>randomBit\<close>; its argument is the outcome of \<open>Math.random() < 0.5\<close>.\<close>

definition randomBit :: "bool \<Rightarrow> Value" where
  "randomBit below_half = (if below_half then V0 else V1)"

text \<open>The test \<open>F > N / 2\<close> of line 99, a division of numbers.\<close>

definition exceeds_tolerance :: "node_params \<Rightarrow> bool" where
  "exceeds_tolerance cfg = (real_of_int (N cfg) / 2 < real_of_int (F cfg))"

definition MAX_STEPS :: int where
  "MAX_STEPS = 2"

text \<open>Lines 119 to 129: one \<open>fetch\<close> for each index below \<open>N\<close> other than \<open>nodeId\<close>.\<close>

definition broadcast :: "node_params \<Rightarrow> int \<Rightarrow> node \<Rightarrow> node" where
  "broadcast cfg rnd nd =
     nd\<lparr>sent := sent nd @
          map (\<lambda>i. (i, rnd, x (nodeState nd)))
              (filter (\<lambda>i. i \<noteq> nodeId cfg) [0..N cfg - 1])\<rparr>"

text \<open>
  Requests served while a round waits; what they answer goes to their callers. The
  requests \<open>/status\<close> and \<open>/getState\<close> change nothing and are left out, and so is a
  second \<open>/start\<close> arriving while the first one waits.
\<close>

datatype event = Message int "Value option" | Stop

fun serve :: "event \<Rightarrow> node \<Rightarrow> node" where
  "serve (Message step val) nd = snd (message step val nd)"
| "serve Stop nd = snd (stop nd)"

text \<open>Lines 135 to 146: the votes of the round and the new value of \<open>x\<close>.\<close>

definition round_messages :: "node \<Rightarrow> int \<Rightarrow> Value option list" where
  "round_messages nd rnd = (case receivedMessages nd rnd of None \<Rightarrow> [] | Some vs \<Rightarrow> vs)"

definition numericVotes :: "Value option list \<Rightarrow> Value option list" where
  "numericVotes messages = filter (\<lambda>v. v \<noteq> Some VQ) messages"

definition tally :: "bool \<Rightarrow> Value option list \<Rightarrow> Value" where
  "tally coin messages =
     (let countOnes = length (filter (\<lambda>v. v = Some V1) (numericVotes messages));
          countZeros = length (filter (\<lambda>v. v = Some V0) (numericVotes messages))
      in if countOnes > countZeros then V1
         else if countZeros > countOnes then V0
         else randomBit coin)"

text \<open>
  Lines 135 to 154, the part of a round after the wait. The flag says whether the loop
  is left by the \<open>break\<close> of line 153.
\<close>

definition process_round :: "node_params \<Rightarrow> bool \<Rightarrow> int \<Rightarrow> node \<Rightarrow> node \<times> bool" where
  "process_round cfg coin rnd nd =
     (let messages = round_messages nd rnd;
          nd1 = nd\<lparr>nodeState := (nodeState nd)\<lparr>x := Some (tally coin messages)\<rparr>\<rparr>;
          countX = length (filter (\<lambda>v. v = x (nodeState nd1)) (numericVotes messages))
      in if int countX \<ge> N cfg - F cfg
         then (nd1\<lparr>nodeState := (nodeState nd1)\<lparr>decided := Some True\<rparr>\<rparr>, True)
         else (nd1, False))"

text \<open>Lines 116 to 129: the round is entered, \<open>k\<close> is set and the vote is sent.\<close>

definition begin_round :: "node_params \<Rightarrow> int \<Rightarrow> node \<Rightarrow> node" where
  "begin_round cfg rnd nd =
     broadcast cfg rnd (nd\<lparr>nodeState := (nodeState nd)\<lparr>k := Some rnd\<rparr>\<rparr>)"

text \<open>
  One pass of the loop body behind the \<open>killed\<close> check (lines 116 to 154): the round
  is entered, the requests \<open>evs\<close> are served while it waits, the votes are counted.
\<close>

definition run_round ::
  "node_params \<Rightarrow> bool \<Rightarrow> event list \<Rightarrow> int \<Rightarrow> node \<Rightarrow> node \<times> bool" where
  "run_round cfg coin evs rnd nd =
     process_round cfg coin rnd (fold serve evs (begin_round cfg rnd nd))"

text \<open>
  The loop of lines 114 to 155. \<open>coin rnd\<close> is the random bit available in that round
  and \<open>sched rnd\<close> the requests served during its wait.
\<close>

function round_loop ::
  "node_params \<Rightarrow> (int \<Rightarrow> bool) \<Rightarrow> (int \<Rightarrow> event list) \<Rightarrow> int \<Rightarrow> node \<Rightarrow> node" where
  "round_loop cfg coin sched rnd nd =
     (if rnd < MAX_STEPS then
        if killed (nodeState nd) then nd
        else if snd (run_round cfg (coin rnd) (sched rnd) rnd nd)
             then fst (run_round cfg (coin rnd) (sched rnd) rnd nd)
             else round_loop cfg coin sched (rnd + 1)
                    (fst (run_round cfg (coin rnd) (sched rnd) rnd nd))
      else nd)"
  by pat_completeness auto
termination
  by (relation "measure (\<lambda>(cfg, coin, sched, rnd, nd). nat (MAX_STEPS - rnd))") auto

declare round_loop.simps [simp del]

text \<open>Lines 157 to 162: \<open>!nodeState.decided\<close> holds for \<open>false\<close> and for \<open>null\<close>.\<close>

definition force_decision :: "node \<Rightarrow> node" where
  "force_decision nd =
     (if decided (nodeState nd) \<noteq> Some True
      then nd\<lparr>nodeState := (nodeState nd)\<lparr>x := Some V1, decided := Some True, k := Some 2\<rparr>\<rparr>
      else nd)"

text \<open>
  Lines 86 to 110: the three ways in which \<open>/start\<close> answers before the loop; \<open>None\<close>
  when it goes on to the loop.
\<close>

definition start_early :: "node_params \<Rightarrow> node \<Rightarrow> (response \<times> node) option" where
  "start_early cfg nd =
     (if killed (nodeState nd) then Some (NodeIsStopped, nd)
      else if isFaulty cfg then
        Some (FaultyNotParticipating,
              nd\<lparr>nodeState := (nodeState nd)\<lparr>x := None, decided := None, k := None\<rparr>\<rparr>)
      else if exceeds_tolerance cfg then
        (let ns = (nodeState nd)\<lparr>decided := Some False, k := Some 11\<rparr>;
             ns1 = (if x ns = None then ns\<lparr>x := Some V1\<rparr> else ns);
             ns2 = ns1\<lparr>killed := True\<rparr>
         in Some (NoFinality (x ns2) False (k ns2), nd\<lparr>nodeState := ns2\<rparr>))
      else None)"

definition start ::
  "node_params \<Rightarrow> (int \<Rightarrow> bool) \<Rightarrow> (int \<Rightarrow> event list) \<Rightarrow> node \<Rightarrow> response \<times> node" where
  "start cfg coin sched nd =
     (case start_early cfg nd of
        Some answer \<Rightarrow> answer
      | None \<Rightarrow>
          (let nd1 = force_decision (round_loop cfg coin sched 0 nd)
           in (Finished (x (nodeState nd1)) (decided (nodeState nd1)) (k (nodeState nd1)),
               nd1)))"

text \<open>What \<open>/stop\<close> leaves of the state (lines 75 to 78).\<close>

definition stopped :: NodeState where
  "stopped = \<lparr>killed = True, x = None, decided = None, k = None\<rparr>"

subsection \<open>Several nodes in lockstep\<close>

text \<open>
  The scenarios of the specification speak of all nodes of a network at once. Here every
  node's \<open>/start\<close> is called at the same moment, and every vote sent in a round reaches
  its receiver while that receiver waits in the same round: the rounds of all nodes run
  in lockstep. A participant is a node with its parameters; \<open>in_loop\<close> says that its
  \<open>/start\<close> handler is inside the round loop.
\<close>

record participant =
  params :: node_params
  local_node :: node
  in_loop :: bool

definition enter :: "participant \<Rightarrow> participant" where
  "enter p =
     (case start_early (params p) (local_node p) of
        Some answer \<Rightarrow> p\<lparr>local_node := snd answer, in_loop := False\<rparr>
      | None \<Rightarrow> p\<lparr>in_loop := True\<rparr>)"

text \<open>The head of the loop: its condition, the \<open>killed\<close> check, then the broadcast.\<close>

definition net_begin :: "int \<Rightarrow> participant \<Rightarrow> participant" where
  "net_begin rnd p =
     (if in_loop p then
        if rnd < MAX_STEPS \<and> \<not> killed (nodeState (local_node p))
        then p\<lparr>local_node := begin_round (params p) rnd (local_node p)\<rparr>
        else p\<lparr>local_node := force_decision (local_node p), in_loop := False\<rparr>
      else p)"

text \<open>A \<open>fetch\<close> to index \<open>i\<close> is a request to \<open>/message\<close> of the node with that id.\<close>

definition deliver :: "int \<times> int \<times> Value option \<Rightarrow> participant \<Rightarrow> participant" where
  "deliver pk p =
     (if fst pk = nodeId (params p)
      then p\<lparr>local_node := snd (message (fst (snd pk)) (snd (snd pk)) (local_node p))\<rparr>
      else p)"

definition net_process :: "bool \<Rightarrow> int \<Rightarrow> participant \<Rightarrow> participant" where
  "net_process coin rnd p =
     (if in_loop p then
        if snd (process_round (params p) coin rnd (local_node p))
        then p\<lparr>local_node :=
                 force_decision (fst (process_round (params p) coin rnd (local_node p))),
               in_loop := False\<rparr>
        else p\<lparr>local_node := fst (process_round (params p) coin rnd (local_node p))\<rparr>
      else p)"

text \<open>
  One round of all participants: the votes that the broadcasts of this round added to
  the \<open>sent\<close> logs are delivered, then every participant in the loop counts its votes.
\<close>

definition net_round :: "(int \<Rightarrow> int \<Rightarrow> bool) \<Rightarrow> int \<Rightarrow> participant list \<Rightarrow> participant list" where
  "net_round coins rnd ps =
     (let ps1 = map (net_begin rnd) ps;
          pks = concat (map (\<lambda>(p, p1). drop (length (sent (local_node p))) (sent (local_node p1)))
                            (zip ps ps1))
      in map (\<lambda>p. net_process (coins (nodeId (params p)) rnd) rnd (fold deliver pks p)) ps1)"

function net_loop :: "(int \<Rightarrow> int \<Rightarrow> bool) \<Rightarrow> int \<Rightarrow> participant list \<Rightarrow> participant list" where
  "net_loop coins rnd ps =
     (if rnd < MAX_STEPS then net_loop coins (rnd + 1) (net_round coins rnd ps)
      else map (net_begin rnd) ps)"
  by pat_completeness auto
termination
  by (relation "measure (\<lambda>(coins, rnd, ps). nat (MAX_STEPS - rnd))") auto

declare net_loop.simps [simp del]

definition net_run :: "(int \<Rightarrow> int \<Rightarrow> bool) \<Rightarrow> participant list \<Rightarrow> participant list" where
  "net_run coins ps = net_loop coins 0 (map enter ps)"

text \<open>A network of freshly created nodes, from their parameters and initial values.\<close>

definition fresh :: "node_params \<Rightarrow> Value \<Rightarrow> participant" where
  "fresh cfg initialValue =
     \<lparr>params = cfg, local_node = initial (isFaulty cfg) initialValue, in_loop = False\<rparr>"

subsection \<open>Inputs and predicates of the properties\<close>

text \<open>
  A node that has decided holds a value that the votes of its round support: the value
  is 0 or 1, and when \<open>k\<close> is a round, at least \<open>N - F\<close> of the votes stored for that
  round equal the value.
\<close>

definition quorum_ok :: "node_params \<Rightarrow> node \<Rightarrow> bool" where
  "quorum_ok cfg nd =
     (case (x (nodeState nd), k (nodeState nd)) of
        (Some v, Some j) \<Rightarrow>
          N cfg - F cfg \<le> int (count_list (round_messages nd j) (Some v)) \<and> v \<noteq> VQ
      | (Some v, None) \<Rightarrow> v \<noteq> VQ
      | (None, _) \<Rightarrow> False)"

text \<open>The parameters of node \<open>i\<close> in a network of four nodes that tolerates one fault.\<close>

definition four_one :: "int \<Rightarrow> bool \<Rightarrow> node_params" where
  "four_one i faulty = \<lparr>nodeId = i, N = 4, F = 1, isFaulty = faulty\<rparr>"

text \<open>
  Scenario A, read in both ways: nodes 0, 1 and 2 start with 0; node 3 starts with 1 and
  is either a live node or the one faulty node.
\<close>

definition scenario_A :: "bool \<Rightarrow> participant list" where
  "scenario_A faulty3 =
     [fresh (four_one 0 False) V0, fresh (four_one 1 False) V0,
      fresh (four_one 2 False) V0, fresh (four_one 3 faulty3) V1]"

text \<open>Three votes for 0 arrive while round 0 waits, nothing afterwards.\<close>

definition three_zeros :: "int \<Rightarrow> event list" where
  "three_zeros rnd =
     (if rnd = 0 then [Message 0 (Some V0), Message 0 (Some V0), Message 0 (Some V0)] else [])"

text \<open>Nothing arrives at all.\<close>

definition silence :: "int \<Rightarrow> event list" where
  "silence rnd = []"

text \<open>A \<open>/stop\<close> request arrives while round 0 waits.\<close>

definition stop_in_round_0 :: "int \<Rightarrow> event list" where
  "stop_in_round_0 rnd = (if rnd = 0 then [Stop] else [])"

text \<open>
  The votes of round 0 that the three peers of a node send to it in scenario A, all
  arriving while round 0 waits.
\<close>

definition peers_votes_A :: "int \<Rightarrow> event list" where
  "peers_votes_A rnd =
     (if rnd = 0 then [Message 0 (Some V0), Message 0 (Some V0), Message 0 (Some V1)] else [])"

text \<open>Nothing arrives in round 0; three votes for 1 arrive while round 1 waits.\<close>

definition three_ones_late :: "int \<Rightarrow> event list" where
  "three_ones_late rnd =
     (if rnd = 1 then [Message 1 (Some V1), Message 1 (Some V1), Message 1 (Some V1)] else [])"

definition heads :: "int \<Rightarrow> bool" where
  "heads rnd = True"

section \<open>Properties\<close>

subsection \<open>Auxiliary facts about the handlers\<close>

lemma exceeds_tolerance_iff: "exceeds_tolerance cfg = (N cfg < 2 * F cfg)"
  by (auto simp: exceeds_tolerance_def)

lemma fold_serve_sent: "sent (fold serve evs nd) = sent nd"
proof (induction evs arbitrary: nd)
  case Nil
  show ?case by simp
next
  case (Cons ev evs)
  show ?case by (cases ev) (simp_all add: Cons.IH message_def stop_def)
qed

lemma fold_serve_nodeState:
  "nodeState (fold serve evs nd) = (if Stop \<in> set evs then stopped else nodeState nd)"
proof (induction evs arbitrary: nd)
  case Nil
  show ?case by simp
next
  case (Cons ev evs)
  show ?case
    by (cases ev) (simp_all add: Cons.IH message_def stop_def stopped_def)
qed

lemma count_filter_numeric:
  "w \<noteq> Some VQ \<Longrightarrow> length (filter (\<lambda>v. v = w) (numericVotes ms)) = count_list ms w"
  by (induction ms) (auto simp: numericVotes_def)

lemma tally_count:
  "tally coin ms =
     (if count_list ms (Some V0) < count_list ms (Some V1) then V1
      else if count_list ms (Some V1) < count_list ms (Some V0) then V0
      else randomBit coin)"
  by (simp add: tally_def count_filter_numeric)

lemma tally_not_abstain: "tally coin ms \<noteq> VQ"
  by (simp add: tally_count randomBit_def)

lemma tally_numeric: "tally coin (numericVotes ms) = tally coin ms"
  by (simp add: tally_def numericVotes_def)

lemma process_round_state:
  "nodeState (fst (process_round cfg coin rnd nd)) =
     (nodeState nd)\<lparr>x := Some (tally coin (round_messages nd rnd)),
                    decided := (if snd (process_round cfg coin rnd nd) then Some True
                                else decided (nodeState nd))\<rparr>"
  by (simp add: process_round_def Let_def)

lemma process_round_rest:
  "receivedMessages (fst (process_round cfg coin rnd nd)) = receivedMessages nd"
  "sent (fst (process_round cfg coin rnd nd)) = sent nd"
  by (simp_all add: process_round_def Let_def)

lemma process_round_break:
  "snd (process_round cfg coin rnd nd) =
     (N cfg - F cfg
        \<le> int (count_list (round_messages nd rnd) (Some (tally coin (round_messages nd rnd)))))"
  by (simp add: process_round_def Let_def count_filter_numeric tally_not_abstain)

lemma begin_round_state:
  "nodeState (begin_round cfg rnd nd) = (nodeState nd)\<lparr>k := Some rnd\<rparr>"
  "receivedMessages (begin_round cfg rnd nd) = receivedMessages nd"
  by (simp_all add: begin_round_def broadcast_def)

lemma run_round_state:
  "nodeState (fst (run_round cfg coin evs rnd nd)) =
     (if Stop \<in> set evs then stopped else (nodeState nd)\<lparr>k := Some rnd\<rparr>)
       \<lparr>x := Some (tally coin (round_messages (fold serve evs (begin_round cfg rnd nd)) rnd)),
        decided := (if snd (run_round cfg coin evs rnd nd) then Some True
                    else if Stop \<in> set evs then None else decided (nodeState nd))\<rparr>"
  by (simp add: run_round_def process_round_state fold_serve_nodeState begin_round_state
      stopped_def)

lemma run_round_messages:
  "round_messages (fst (run_round cfg coin evs rnd nd)) r =
     round_messages (fold serve evs (begin_round cfg rnd nd)) r"
  by (simp add: run_round_def round_messages_def process_round_rest)

lemma run_round_break:
  "snd (run_round cfg coin evs rnd nd) =
     (N cfg - F cfg
        \<le> int (count_list (round_messages (fold serve evs (begin_round cfg rnd nd)) rnd)
                 (Some (tally coin
                          (round_messages (fold serve evs (begin_round cfg rnd nd)) rnd)))))"
  by (simp add: run_round_def process_round_break)

lemma round_loop_done:
  "\<not> (rnd < MAX_STEPS \<and> \<not> killed (nodeState nd)) \<Longrightarrow> round_loop cfg coin sched rnd nd = nd"
  by (auto simp: round_loop.simps)

lemma round_loop_break:
  "rnd < MAX_STEPS \<Longrightarrow> \<not> killed (nodeState nd) \<Longrightarrow>
   snd (run_round cfg (coin rnd) (sched rnd) rnd nd) \<Longrightarrow>
   round_loop cfg coin sched rnd nd = fst (run_round cfg (coin rnd) (sched rnd) rnd nd)"
  by (simp add: round_loop.simps)

lemma round_loop_next:
  "rnd < MAX_STEPS \<Longrightarrow> \<not> killed (nodeState nd) \<Longrightarrow>
   \<not> snd (run_round cfg (coin rnd) (sched rnd) rnd nd) \<Longrightarrow>
   round_loop cfg coin sched rnd nd =
     round_loop cfg coin sched (rnd + 1) (fst (run_round cfg (coin rnd) (sched rnd) rnd nd))"
  by (simp add: round_loop.simps)

lemmas run_defs =
  start_def start_early_def exceeds_tolerance_iff round_loop.simps MAX_STEPS_def run_round_def
  begin_round_def broadcast_def process_round_def round_messages_def numericVotes_def
  tally_def randomBit_def force_decision_def message_def stop_def initial_def Let_def

subsection \<open>A decision of the loop rests on a quorum\<close>

lemma run_round_quorum:
  assumes "snd (run_round cfg coin evs rnd nd)"
  shows "quorum_ok cfg (fst (run_round cfg coin evs rnd nd))"
  using assms
  by (simp add: quorum_ok_def run_round_state run_round_messages run_round_break
      tally_not_abstain stopped_def)

lemma round_loop_decided:
  "decided (nodeState nd) \<noteq> Some True \<Longrightarrow>
   decided (nodeState (round_loop cfg coin sched rnd nd)) = Some True \<Longrightarrow>
   quorum_ok cfg (round_loop cfg coin sched rnd nd)"
proof (induction cfg coin sched rnd nd rule: round_loop.induct)
  case (1 cfg coin sched rnd nd)
  let ?rr = "run_round cfg (coin rnd) (sched rnd) rnd nd"
  show ?case
  proof (cases "rnd < MAX_STEPS \<and> \<not> killed (nodeState nd)")
    case False
    then have "round_loop cfg coin sched rnd nd = nd"
      by (rule round_loop_done)
    with "1.prems" show ?thesis by simp
  next
    case True
    show ?thesis
    proof (cases "snd ?rr")
      case True
      with \<open>rnd < MAX_STEPS \<and> \<not> killed (nodeState nd)\<close>
      have "round_loop cfg coin sched rnd nd = fst ?rr"
        by (simp add: round_loop_break)
      with True show ?thesis by (simp add: run_round_quorum)
    next
      case False
      with True have eq:
        "round_loop cfg coin sched rnd nd = round_loop cfg coin sched (rnd + 1) (fst ?rr)"
        by (simp add: round_loop_next)
      from False "1.prems"(1) have "decided (nodeState (fst ?rr)) \<noteq> Some True"
        by (simp add: run_round_state)
      with "1.IH" True False "1.prems"(2) eq show ?thesis by simp
    qed
  qed
qed

text \<open>
  C1 (amended). If \<open>/start\<close> is called on a node that has not decided, and it ends with
  \<open>decided = true\<close>, belief \<open>v\<close> and round \<open>r\<close> other than the forced round 2, then the
  votes stored for round \<open>r\<close> hold at least \<open>N - F\<close> numeric votes equal to \<open>v\<close>.
\<close>

theorem decision_rests_on_quorum:
  assumes "decided (nodeState nd) \<noteq> Some True"
    and "decided (nodeState (snd (start cfg coin sched nd))) = Some True"
    and "x (nodeState (snd (start cfg coin sched nd))) = Some v"
    and "k (nodeState (snd (start cfg coin sched nd))) = Some r"
    and "r \<noteq> 2"
  shows "N cfg - F cfg
           \<le> int (length (filter (\<lambda>w. w = Some v)
                    (numericVotes (round_messages (snd (start cfg coin sched nd)) r))))"
proof (cases "start_early cfg nd")
  case (Some answer)
  with assms(1,2) show ?thesis
    by (auto simp: start_def start_early_def Let_def split: if_splits)
next
  case None
  let ?res = "round_loop cfg coin sched 0 nd"
  from None have st: "snd (start cfg coin sched nd) = force_decision ?res"
    by (simp add: start_def Let_def)
  have dec: "decided (nodeState ?res) = Some True"
  proof (rule ccontr)
    assume "decided (nodeState ?res) \<noteq> Some True"
    then have "k (nodeState (force_decision ?res)) = Some 2"
      by (simp add: force_decision_def)
    with assms(4,5) st show False by simp
  qed
  then have same: "force_decision ?res = ?res"
    by (simp add: force_decision_def)
  from round_loop_decided[OF assms(1) dec] have "quorum_ok cfg ?res" .
  with assms(3,4) st same
  have "N cfg - F cfg \<le> int (count_list (round_messages ?res r) (Some v))" and "v \<noteq> VQ"
    by (simp_all add: quorum_ok_def)
  with st same show ?thesis by (simp add: count_filter_numeric)
qed

theorem decision_rests_on_quorum_witness:
  "decided (nodeState (initial False V0)) \<noteq> Some True
   \<and> decided (nodeState (snd (start (four_one 0 False) heads three_zeros (initial False V0))))
       = Some True
   \<and> x (nodeState (snd (start (four_one 0 False) heads three_zeros (initial False V0))))
       = Some V0
   \<and> k (nodeState (snd (start (four_one 0 False) heads three_zeros (initial False V0))))
       = Some 0
   \<and> (0::int) \<noteq> 2
   \<and> N (four_one 0 False) - F (four_one 0 False)
       \<le> int (length (filter (\<lambda>w. w = Some V0)
                (numericVotes (round_messages
                  (snd (start (four_one 0 False) heads three_zeros (initial False V0))) 0))))"
  using decision_rests_on_quorum
    [of "initial False V0" "four_one 0 False" heads three_zeros V0 0]
  by (simp add: run_defs four_one_def three_zeros_def heads_def)

text \<open>
  The claim as stated fails at the forced decision: with no vote received at all, the
  node ends with \<open>decided = true\<close>, belief 1 and round 2, and no vote is stored for
  round 2.
\<close>

theorem forced_decision_without_quorum:
  "decided (nodeState (snd (start (four_one 0 False) heads silence (initial False V0))))
     = Some True
   \<and> x (nodeState (snd (start (four_one 0 False) heads silence (initial False V0)))) = Some V1
   \<and> k (nodeState (snd (start (four_one 0 False) heads silence (initial False V0)))) = Some 2
   \<and> \<not> N (four_one 0 False) - F (four_one 0 False)
       \<le> int (length (filter (\<lambda>w. w = Some V1)
                (numericVotes (round_messages
                  (snd (start (four_one 0 False) heads silence (initial False V0))) 2))))"
  by (simp add: run_defs four_one_def silence_def heads_def)

subsection \<open>The tally\<close>

text \<open>
  C5. The value that a round gives to \<open>x\<close> is the tally of the votes stored for that
  round. The tally is 1 when the votes hold more 1s than 0s, 0 when they hold more 0s
  than 1s, and the random bit otherwise, which includes the empty list of votes. Votes
  \<open>"?"\<close> are dropped before counting: none of them is left, and dropping them does not
  change the tally.
\<close>

theorem tally_follows_majority:
  "x (nodeState (fst (process_round cfg coin rnd nd))) = Some (tally coin (round_messages nd rnd))
   \<and> tally coin ms =
     (if count_list ms (Some V0) < count_list ms (Some V1) then V1
      else if count_list ms (Some V1) < count_list ms (Some V0) then V0
      else randomBit coin)
   \<and> tally coin (filter (\<lambda>v. v \<noteq> Some VQ) ms) = tally coin ms
   \<and> count_list (filter (\<lambda>v. v \<noteq> Some VQ) ms) (Some VQ) = 0
   \<and> tally coin [] = randomBit coin"
  using tally_numeric[of coin ms]
  by (simp add: process_round_state tally_count numericVotes_def)

theorem tally_follows_majority_witness:
  "x (nodeState (fst (process_round (four_one 0 False) True 0
       (snd (message 0 (Some VQ) (snd (message 0 (Some V1) (initial False V0)))))))) = Some V1
   \<and> tally True [Some VQ, Some V1, Some V0, Some VQ] = V0
   \<and> tally False [Some VQ, Some V1, Some V0, Some VQ] = V1
   \<and> tally True [] = V0"
  using tally_follows_majority[of "four_one 0 False" True 0
      "snd (message 0 (Some VQ) (snd (message 0 (Some V1) (initial False V0))))"
      "[Some VQ, Some V1, Some V0, Some VQ]"]
    tally_follows_majority[of "four_one 0 False" False 0 "initial False V0"
      "[Some VQ, Some V1, Some V0, Some VQ]"]
  by (simp add: run_defs)

subsection \<open>Votes and stops at a stopped node\<close>

text \<open>
  C7. At a node whose \<open>killed\<close> flag is set, \<open>/message\<close> answers with the error
  "Node is stopped" and leaves the node as it was; the votes stored for every round are
  the same afterwards.
\<close>

theorem vote_after_stop_rejected:
  "killed (nodeState nd) \<Longrightarrow>
   message step val nd = (NodeIsStopped, nd)
   \<and> (\<forall>rnd. round_messages (snd (message step val nd)) rnd = round_messages nd rnd)
   \<and> serve (Message step val) nd = nd"
  by (simp add: message_def)

theorem vote_after_stop_rejected_witness:
  "killed (nodeState (snd (stop (initial False V0))))
   \<and> message 0 (Some V1) (snd (stop (initial False V0)))
       = (NodeIsStopped, snd (stop (initial False V0)))
   \<and> round_messages (snd (message 0 (Some V1) (snd (stop (initial False V0))))) 0 = []"
  using vote_after_stop_rejected[of "snd (stop (initial False V0))" 0 "Some V1"]
  by (simp add: stop_def initial_def round_messages_def)

text \<open>
  C9. \<open>/stop\<close> always answers "stopped" and leaves \<open>killed = true\<close> with \<open>x\<close>,
  \<open>decided\<close> and \<open>k\<close> null; a second \<open>/stop\<close>, or a \<open>/stop\<close> after \<open>/start\<close> has
  returned, gives the same answer and the same state.
\<close>

theorem stop_idempotent:
  "nodeState (snd (stop nd)) = \<lparr>killed = True, x = None, decided = None, k = None\<rparr>
   \<and> fst (stop nd) = Stopped
   \<and> stop (snd (stop nd)) = stop nd
   \<and> nodeState (snd (stop (snd (start cfg coin sched nd))))
       = \<lparr>killed = True, x = None, decided = None, k = None\<rparr>
   \<and> fst (stop (snd (start cfg coin sched nd))) = Stopped
   \<and> stop (snd (stop (snd (start cfg coin sched nd)))) = stop (snd (start cfg coin sched nd))
   \<and> receivedMessages (snd (stop nd)) = receivedMessages nd
   \<and> sent (snd (stop nd)) = sent nd"
  by (simp add: stop_def)

theorem stop_idempotent_witness:
  "nodeState (snd (stop (snd (start (four_one 0 False) heads three_zeros (initial False V0)))))
     = \<lparr>killed = True, x = None, decided = None, k = None\<rparr>
   \<and> decided (nodeState (snd (start (four_one 0 False) heads three_zeros (initial False V0))))
     = Some True
   \<and> stop (snd (stop (initial False V1))) = stop (initial False V1)"
  using stop_idempotent[of "initial False V0" "four_one 0 False" heads three_zeros]
    stop_idempotent[of "initial False V1" "four_one 0 False" heads three_zeros]
  by (simp add: run_defs four_one_def three_zeros_def heads_def)

subsection \<open>Rounds and votes sent by the loop\<close>

lemma round_loop_round:
  "k (nodeState (round_loop cfg coin sched rnd nd)) = None
   \<or> (\<exists>j. k (nodeState (round_loop cfg coin sched rnd nd)) = Some j \<and> rnd \<le> j \<and> j < MAX_STEPS)
   \<or> round_loop cfg coin sched rnd nd = nd \<and> \<not> (rnd < MAX_STEPS \<and> \<not> killed (nodeState nd))"
proof (induction cfg coin sched rnd nd rule: round_loop.induct)
  case (1 cfg coin sched rnd nd)
  let ?rr = "run_round cfg (coin rnd) (sched rnd) rnd nd"
  show ?case
  proof (cases "rnd < MAX_STEPS \<and> \<not> killed (nodeState nd)")
    case False
    then show ?thesis by (simp add: round_loop_done)
  next
    case True
    have kk: "k (nodeState (fst ?rr)) = None \<or> k (nodeState (fst ?rr)) = Some rnd"
      by (simp add: run_round_state stopped_def)
    show ?thesis
    proof (cases "snd ?rr")
      case True
      with \<open>rnd < MAX_STEPS \<and> \<not> killed (nodeState nd)\<close> kk show ?thesis
        by (auto simp: round_loop_break)
    next
      case False
      with True have eq:
        "round_loop cfg coin sched rnd nd = round_loop cfg coin sched (rnd + 1) (fst ?rr)"
        by (simp add: round_loop_next)
      from "1.IH" True False
      have "k (nodeState (round_loop cfg coin sched (rnd + 1) (fst ?rr))) = None
        \<or> (\<exists>j. k (nodeState (round_loop cfg coin sched (rnd + 1) (fst ?rr))) = Some j \<and> rnd + 1 \<le> j \<and> j < MAX_STEPS)
        \<or> round_loop cfg coin sched (rnd + 1) (fst ?rr) = fst ?rr \<and> \<not> (rnd + 1 < MAX_STEPS \<and> \<not> killed (nodeState (fst ?rr)))"
        by simp
      with kk True show ?thesis unfolding eq by auto
    qed
  qed
qed

lemma start_finished_round:
  assumes "fst (start cfg coin sched nd) = Finished b d (Some r)"
  shows "0 \<le> r \<and> r \<le> 2"
proof -
  from assms have early: "start_early cfg nd = None"
    by (auto simp: start_def start_early_def Let_def split: option.splits if_splits)
  then have nk: "\<not> killed (nodeState nd)"
    by (auto simp: start_early_def Let_def split: if_splits)
  let ?res = "round_loop cfg coin sched 0 nd"
  from early assms have kr: "k (nodeState (force_decision ?res)) = Some r"
    by (simp add: start_def Let_def)
  from round_loop_round[of cfg coin sched 0 nd] nk
  have "k (nodeState ?res) = None \<or> (\<exists>j. k (nodeState ?res) = Some j \<and> 0 \<le> j \<and> j < 2)"
    by (auto simp: MAX_STEPS_def)
  with kr show ?thesis
    by (auto simp: force_decision_def split: if_splits)
qed

lemma fold_serve_killed:
  "killed (nodeState nd) \<Longrightarrow> receivedMessages (fold serve evs nd) = receivedMessages nd"
proof (induction evs arbitrary: nd)
  case Nil
  show ?case by simp
next
  case (Cons ev evs)
  then show ?case by (cases ev) (simp_all add: message_def stop_def)
qed

lemma fold_serve_messages_cong:
  "receivedMessages nd = receivedMessages nd' \<Longrightarrow>
   killed (nodeState nd) = killed (nodeState nd') \<Longrightarrow>
   receivedMessages (fold serve evs nd) = receivedMessages (fold serve evs nd')"
proof (induction evs arbitrary: nd nd')
  case Nil
  then show ?case by simp
next
  case (Cons ev evs)
  have "receivedMessages (fold serve evs (serve ev nd))
          = receivedMessages (fold serve evs (serve ev nd'))"
  proof (rule Cons.IH)
    show "receivedMessages (serve ev nd) = receivedMessages (serve ev nd')"
      using Cons.prems by (cases ev) (simp_all add: message_def stop_def)
    show "killed (nodeState (serve ev nd)) = killed (nodeState (serve ev nd'))"
      using Cons.prems by (cases ev) (simp_all add: message_def stop_def)
  qed
  then show ?case by simp
qed

lemma run_round_sent:
  "sent (fst (run_round cfg coin evs rnd nd)) =
     sent nd @ map (\<lambda>i. (i, rnd, x (nodeState nd))) (filter (\<lambda>i. i \<noteq> nodeId cfg) [0..N cfg - 1])"
  by (simp add: run_round_def process_round_rest fold_serve_sent begin_round_def broadcast_def)

lemma round_loop_sent:
  "\<exists>new. sent (round_loop cfg coin sched rnd nd) = sent nd @ new
     \<and> (\<forall>pk \<in> set new. fst pk \<noteq> nodeId cfg \<and> rnd \<le> fst (snd pk) \<and> fst (snd pk) < MAX_STEPS)"
proof (induction cfg coin sched rnd nd rule: round_loop.induct)
  case (1 cfg coin sched rnd nd)
  let ?rr = "run_round cfg (coin rnd) (sched rnd) rnd nd"
  let ?bc = "map (\<lambda>i. (i, rnd, x (nodeState nd))) (filter (\<lambda>i. i \<noteq> nodeId cfg) [0..N cfg - 1])"
  show ?case
  proof (cases "rnd < MAX_STEPS \<and> \<not> killed (nodeState nd)")
    case False
    then show ?thesis by (simp add: round_loop_done)
  next
    case True
    have bc: "\<forall>pk \<in> set ?bc. fst pk \<noteq> nodeId cfg \<and> rnd \<le> fst (snd pk) \<and> fst (snd pk) < MAX_STEPS"
      using True by auto
    show ?thesis
    proof (cases "snd ?rr")
      case True
      with \<open>rnd < MAX_STEPS \<and> \<not> killed (nodeState nd)\<close>
      have "sent (round_loop cfg coin sched rnd nd) = sent nd @ ?bc"
        by (simp add: round_loop_break run_round_sent)
      with bc show ?thesis by blast
    next
      case False
      with True have eq:
        "round_loop cfg coin sched rnd nd = round_loop cfg coin sched (rnd + 1) (fst ?rr)"
        by (simp add: round_loop_next)
      from "1.IH" True False obtain new where
        new: "sent (round_loop cfg coin sched (rnd + 1) (fst ?rr)) = sent (fst ?rr) @ new"
          "\<forall>pk \<in> set new. fst pk \<noteq> nodeId cfg \<and> rnd + 1 \<le> fst (snd pk) \<and> fst (snd pk) < MAX_STEPS"
        by auto
      have "sent (round_loop cfg coin sched rnd nd) = sent nd @ (?bc @ new)"
        by (simp add: eq new(1) run_round_sent)
      moreover have "\<forall>pk \<in> set (?bc @ new). fst pk \<noteq> nodeId cfg \<and> rnd \<le> fst (snd pk) \<and> fst (snd pk) < MAX_STEPS"
        using bc new(2) by auto
      ultimately show ?thesis by blast
    qed
  qed
qed

lemma force_decision_rest:
  "sent (force_decision nd) = sent nd"
  "receivedMessages (force_decision nd) = receivedMessages nd"
  "decided (nodeState (force_decision nd)) = Some True"
  "killed (nodeState (force_decision nd)) = killed (nodeState nd)"
  by (simp_all add: force_decision_def)

lemma start_sent:
  "\<exists>new. sent (snd (start cfg coin sched nd)) = sent nd @ new
     \<and> (\<forall>pk \<in> set new. fst pk \<noteq> nodeId cfg \<and> 0 \<le> fst (snd pk) \<and> fst (snd pk) < MAX_STEPS)"
proof (cases "start_early cfg nd")
  case None
  then have "sent (snd (start cfg coin sched nd)) = sent (round_loop cfg coin sched 0 nd)"
    by (simp add: start_def Let_def force_decision_rest)
  with round_loop_sent[of cfg coin sched 0 nd] show ?thesis by simp
next
  case (Some answer)
  then have "sent (snd (start cfg coin sched nd)) = sent nd"
    by (auto simp: start_def start_early_def Let_def split: if_splits)
  then show ?thesis by simp
qed

lemma round_loop_no_stop:
  "\<forall>r. Stop \<notin> set (sched r) \<Longrightarrow> \<not> killed (nodeState nd) \<Longrightarrow>
   \<not> killed (nodeState (round_loop cfg coin sched rnd nd))
   \<and> (rnd < MAX_STEPS \<longrightarrow>
        (\<exists>j. k (nodeState (round_loop cfg coin sched rnd nd)) = Some j \<and> rnd \<le> j \<and> j < MAX_STEPS))"
proof (induction cfg coin sched rnd nd rule: round_loop.induct)
  case (1 cfg coin sched rnd nd)
  let ?rr = "run_round cfg (coin rnd) (sched rnd) rnd nd"
  show ?case
  proof (cases "rnd < MAX_STEPS")
    case False
    with "1.prems" show ?thesis by (simp add: round_loop_done)
  next
    case True
    from "1.prems" have st: "k (nodeState (fst ?rr)) = Some rnd" "\<not> killed (nodeState (fst ?rr))"
      by (simp_all add: run_round_state)
    show ?thesis
    proof (cases "snd ?rr")
      case True
      with \<open>rnd < MAX_STEPS\<close> "1.prems" st show ?thesis
        by (simp add: round_loop_break)
    next
      case False
      with True "1.prems" have eq:
        "round_loop cfg coin sched rnd nd = round_loop cfg coin sched (rnd + 1) (fst ?rr)"
        by (simp add: round_loop_next)
      from "1.IH" True False "1.prems" st(2)
      have ih: "\<not> killed (nodeState (round_loop cfg coin sched (rnd + 1) (fst ?rr)))
        \<and> (rnd + 1 < MAX_STEPS \<longrightarrow>
        (\<exists>j. k (nodeState (round_loop cfg coin sched (rnd + 1) (fst ?rr))) = Some j \<and> rnd + 1 \<le> j \<and> j < MAX_STEPS))"
        by simp
      show ?thesis
      proof (cases "rnd + 1 < MAX_STEPS")
        case True
        with ih show ?thesis unfolding eq by auto
      next
        case False
        then have "round_loop cfg coin sched (rnd + 1) (fst ?rr) = fst ?rr"
          by (simp add: round_loop_done)
        with st \<open>rnd < MAX_STEPS\<close> show ?thesis unfolding eq by simp
      qed
    qed
  qed
qed

subsection \<open>The feasibility gate\<close>

text \<open>
  C2. When \<open>F > N / 2\<close> and the node is neither faulty nor killed, \<open>/start\<close> answers
  "no finality" whatever the schedule: \<open>decided\<close> is false, \<open>killed\<close> is true, \<open>k\<close> is
  11, \<open>x\<close> is 1 if it was null and unchanged otherwise, and neither the log of sent
  votes nor the stored votes change. Every run of \<open>/start\<close> that ends with "Consensus
  process finished" reports a round of at most 2, which is below 11.
\<close>

theorem start_beyond_tolerance:
  assumes "real_of_int (N cfg) / 2 < real_of_int (F cfg)"
    and "\<not> isFaulty cfg"
    and "\<not> killed (nodeState nd)"
  shows "start cfg coin sched nd =
           (NoFinality (case x (nodeState nd) of None \<Rightarrow> Some V1 | Some b \<Rightarrow> Some b) False (Some 11),
            nd\<lparr>nodeState :=
                 \<lparr>killed = True,
                  x = (case x (nodeState nd) of None \<Rightarrow> Some V1 | Some b \<Rightarrow> Some b),
                  decided = Some False,
                  k = Some 11\<rparr>\<rparr>)
         \<and> sent (snd (start cfg coin sched nd)) = sent nd
         \<and> receivedMessages (snd (start cfg coin sched nd)) = receivedMessages nd
         \<and> (\<forall>cfg' coin' sched' nd' b d r.
               fst (start cfg' coin' sched' nd') = Finished b d (Some r) \<longrightarrow> r \<le> 2 \<and> r < 11)"
proof -
  from assms(1) have ex: "exceeds_tolerance cfg"
    by (simp add: exceeds_tolerance_def)
  have eq: "start cfg coin sched nd =
           (NoFinality (case x (nodeState nd) of None \<Rightarrow> Some V1 | Some b \<Rightarrow> Some b) False (Some 11),
            nd\<lparr>nodeState :=
                 \<lparr>killed = True,
                  x = (case x (nodeState nd) of None \<Rightarrow> Some V1 | Some b \<Rightarrow> Some b),
                  decided = Some False,
                  k = Some 11\<rparr>\<rparr>)"
    using ex assms(2,3)
    by (cases "nodeState nd") (simp add: start_def start_early_def Let_def split: option.splits)
  have bound: "\<forall>cfg' coin' sched' nd' b d r.
               fst (start cfg' coin' sched' nd') = Finished b d (Some r) \<longrightarrow> r \<le> 2 \<and> r < 11"
    using start_finished_round by fastforce
  from eq bound show ?thesis by simp
qed

theorem start_beyond_tolerance_witness:
  "real_of_int (N \<lparr>nodeId = 0, N = 3, F = 2, isFaulty = False\<rparr>) / 2
     < real_of_int (F \<lparr>nodeId = 0, N = 3, F = 2, isFaulty = False\<rparr>)
   \<and> \<not> isFaulty \<lparr>nodeId = 0, N = 3, F = 2, isFaulty = False\<rparr>
   \<and> \<not> killed (nodeState (initial False V0))
   \<and> start \<lparr>nodeId = 0, N = 3, F = 2, isFaulty = False\<rparr> heads three_zeros (initial False V0)
       = (NoFinality (Some V0) False (Some 11),
          \<lparr>nodeState = \<lparr>killed = True, x = Some V0, decided = Some False, k = Some 11\<rparr>,
           receivedMessages = Map.empty, sent = []\<rparr>)
   \<and> fst (start (four_one 0 False) heads silence (initial False V0))
       = Finished (Some V1) (Some True) (Some 2)"
  using start_beyond_tolerance
    [of "\<lparr>nodeId = 0, N = 3, F = 2, isFaulty = False\<rparr>" "initial False V0" heads three_zeros]
  by (simp add: run_defs four_one_def silence_def heads_def)

subsection \<open>Termination within the cap\<close>

text \<open>
  C4. When \<open>F \<le> N / 2\<close>, the node is neither faulty nor killed and only votes arrive
  while it runs, \<open>/start\<close> ends with \<open>decided = true\<close> and a round between 0 and the
  cap 2, having sent votes for rounds 0 and 1 only. If the loop ends without
  \<open>decided = true\<close>, the final state is \<open>x = 1\<close>, \<open>decided = true\<close>, \<open>k = 2\<close>.
\<close>

theorem start_decides_within_cap:
  assumes "real_of_int (F cfg) \<le> real_of_int (N cfg) / 2"
    and "\<not> isFaulty cfg"
    and "\<not> killed (nodeState nd)"
    and "\<forall>rnd. Stop \<notin> set (sched rnd)"
  shows "decided (nodeState (snd (start cfg coin sched nd))) = Some True
         \<and> (\<exists>r. k (nodeState (snd (start cfg coin sched nd))) = Some r \<and> 0 \<le> r \<and> r \<le> MAX_STEPS)
         \<and> (\<exists>b r. fst (start cfg coin sched nd) = Finished b (Some True) r)
         \<and> (\<forall>pk \<in> set (drop (length (sent nd)) (sent (snd (start cfg coin sched nd)))).
               0 \<le> fst (snd pk) \<and> fst (snd pk) < MAX_STEPS)
         \<and> (decided (nodeState (round_loop cfg coin sched 0 nd)) \<noteq> Some True \<longrightarrow>
              nodeState (snd (start cfg coin sched nd))
                = \<lparr>killed = False, x = Some V1, decided = Some True, k = Some 2\<rparr>)"
proof -
  let ?res = "round_loop cfg coin sched 0 nd"
  from assms(1,2,3) have early: "start_early cfg nd = None"
    by (simp add: start_early_def exceeds_tolerance_def)
  then have st: "snd (start cfg coin sched nd) = force_decision ?res"
    and an: "fst (start cfg coin sched nd) =
       Finished (x (nodeState (force_decision ?res))) (decided (nodeState (force_decision ?res)))
         (k (nodeState (force_decision ?res)))"
    by (simp_all add: start_def Let_def)
  from round_loop_no_stop[OF assms(4,3), of cfg coin 0]
  have nk: "\<not> killed (nodeState ?res)"
    and kr: "\<exists>j. k (nodeState ?res) = Some j \<and> 0 \<le> j \<and> j < 2"
    by (simp_all add: MAX_STEPS_def)
  have c1: "decided (nodeState (snd (start cfg coin sched nd))) = Some True"
    by (simp add: st force_decision_rest)
  have c2: "\<exists>r. k (nodeState (snd (start cfg coin sched nd))) = Some r \<and> 0 \<le> r \<and> r \<le> MAX_STEPS"
    using kr by (auto simp: st force_decision_def MAX_STEPS_def)
  have c3: "\<exists>b r. fst (start cfg coin sched nd) = Finished b (Some True) r"
    by (simp add: an force_decision_rest)
  from start_sent[of cfg coin sched nd]
  have c4: "\<forall>pk \<in> set (drop (length (sent nd)) (sent (snd (start cfg coin sched nd)))).
               0 \<le> fst (snd pk) \<and> fst (snd pk) < MAX_STEPS"
    by auto
  have c5: "decided (nodeState ?res) \<noteq> Some True \<longrightarrow>
              nodeState (snd (start cfg coin sched nd))
                = \<lparr>killed = False, x = Some V1, decided = Some True, k = Some 2\<rparr>"
    using nk by (cases "nodeState ?res") (simp add: st force_decision_def)
  show ?thesis by (intro conjI c1 c2 c3 c4 c5)
qed

theorem start_decides_within_cap_witness:
  "real_of_int (F (four_one 0 False)) \<le> real_of_int (N (four_one 0 False)) / 2
   \<and> \<not> isFaulty (four_one 0 False)
   \<and> \<not> killed (nodeState (initial False V0))
   \<and> (\<forall>rnd. Stop \<notin> set (silence rnd))
   \<and> decided (nodeState (round_loop (four_one 0 False) heads silence 0 (initial False V0)))
       \<noteq> Some True
   \<and> start (four_one 0 False) heads silence (initial False V0) =
       (Finished (Some V1) (Some True) (Some 2),
        \<lparr>nodeState = \<lparr>killed = False, x = Some V1, decided = Some True, k = Some 2\<rparr>,
         receivedMessages = Map.empty,
         sent = [(1, 0, Some V0), (2, 0, Some V0), (3, 0, Some V0),
                 (1, 1, Some V0), (2, 1, Some V0), (3, 1, Some V0)]\<rparr>)"
  using start_decides_within_cap[of "four_one 0 False" "initial False V0" silence heads]
  by (simp add: run_defs four_one_def silence_def heads_def upto.simps)

subsection \<open>What holds once a node is killed or has decided\<close>

text \<open>
  C3 (amended). At a killed node \<open>/message\<close> and \<open>/start\<close> answer "Node is stopped"
  and change nothing, and the round loop, finding \<open>killed\<close> at the head of a round,
  returns the node as it is: no round is set, no vote is sent, no vote is counted.
  \<open>/message\<close> never changes \<open>x\<close>, \<open>decided\<close>, \<open>k\<close> or \<open>killed\<close>. A round whose count
  reaches \<open>N - F\<close> sets \<open>decided\<close> and ends the loop at once: the loop returns the state
  of that round, the check behind the loop keeps it, and \<open>/start\<close> returns exactly that
  state, be it round 0 or round 1. \<open>/stop\<close> always sets \<open>killed\<close> and nulls \<open>x\<close>,
  \<open>decided\<close> and \<open>k\<close>, whatever the state was.
\<close>

theorem terminal_state_kept:
  "(killed (nodeState nd) \<longrightarrow>
      message step val nd = (NodeIsStopped, nd)
      \<and> start cfg coin sched nd = (NodeIsStopped, nd)
      \<and> round_loop cfg coin sched rnd nd = nd)
   \<and> nodeState (snd (message step val nd)) = nodeState nd
   \<and> (rnd < MAX_STEPS \<and> \<not> killed (nodeState nd)
        \<and> snd (run_round cfg (coin rnd) (sched rnd) rnd nd) \<longrightarrow>
        round_loop cfg coin sched rnd nd = fst (run_round cfg (coin rnd) (sched rnd) rnd nd)
        \<and> decided (nodeState (round_loop cfg coin sched rnd nd)) = Some True
        \<and> force_decision (round_loop cfg coin sched rnd nd)
            = fst (run_round cfg (coin rnd) (sched rnd) rnd nd))
   \<and> (start_early cfg nd = None \<and> snd (run_round cfg (coin 0) (sched 0) 0 nd) \<longrightarrow>
        snd (start cfg coin sched nd) = fst (run_round cfg (coin 0) (sched 0) 0 nd))
   \<and> (start_early cfg nd = None \<and> \<not> snd (run_round cfg (coin 0) (sched 0) 0 nd)
        \<and> \<not> killed (nodeState (fst (run_round cfg (coin 0) (sched 0) 0 nd)))
        \<and> snd (run_round cfg (coin 1) (sched 1) 1 (fst (run_round cfg (coin 0) (sched 0) 0 nd)))
        \<longrightarrow>
        snd (start cfg coin sched nd)
          = fst (run_round cfg (coin 1) (sched 1) 1 (fst (run_round cfg (coin 0) (sched 0) 0 nd))))
   \<and> nodeState (snd (stop nd)) = \<lparr>killed = True, x = None, decided = None, k = None\<rparr>"
proof -
  have c1: "killed (nodeState nd) \<longrightarrow>
      message step val nd = (NodeIsStopped, nd)
      \<and> start cfg coin sched nd = (NodeIsStopped, nd)
      \<and> round_loop cfg coin sched rnd nd = nd"
    by (simp add: message_def start_def start_early_def round_loop_done)
  have c2: "nodeState (snd (message step val nd)) = nodeState nd"
    by (simp add: message_def)
  have c3: "rnd < MAX_STEPS \<and> \<not> killed (nodeState nd)
        \<and> snd (run_round cfg (coin rnd) (sched rnd) rnd nd) \<longrightarrow>
        round_loop cfg coin sched rnd nd = fst (run_round cfg (coin rnd) (sched rnd) rnd nd)
        \<and> decided (nodeState (round_loop cfg coin sched rnd nd)) = Some True
        \<and> force_decision (round_loop cfg coin sched rnd nd)
            = fst (run_round cfg (coin rnd) (sched rnd) rnd nd)"
    by (simp add: round_loop_break run_round_state force_decision_def)
  have c4: "start_early cfg nd = None \<and> snd (run_round cfg (coin 0) (sched 0) 0 nd) \<longrightarrow>
        snd (start cfg coin sched nd) = fst (run_round cfg (coin 0) (sched 0) 0 nd)"
  proof (intro impI, elim conjE)
    assume early: "start_early cfg nd = None" and brk: "snd (run_round cfg (coin 0) (sched 0) 0 nd)"
    from early have nk: "\<not> killed (nodeState nd)"
      by (auto simp: start_early_def Let_def split: if_splits)
    have "round_loop cfg coin sched 0 nd = fst (run_round cfg (coin 0) (sched 0) 0 nd)"
      using nk brk by (simp add: round_loop_break MAX_STEPS_def)
    with early brk show "snd (start cfg coin sched nd) = fst (run_round cfg (coin 0) (sched 0) 0 nd)"
      by (simp add: start_def Let_def force_decision_def run_round_state)
  qed
  have c5: "start_early cfg nd = None \<and> \<not> snd (run_round cfg (coin 0) (sched 0) 0 nd)
        \<and> \<not> killed (nodeState (fst (run_round cfg (coin 0) (sched 0) 0 nd)))
        \<and> snd (run_round cfg (coin 1) (sched 1) 1 (fst (run_round cfg (coin 0) (sched 0) 0 nd)))
        \<longrightarrow>
        snd (start cfg coin sched nd)
          = fst (run_round cfg (coin 1) (sched 1) 1 (fst (run_round cfg (coin 0) (sched 0) 0 nd)))"
  proof (intro impI, elim conjE)
    let ?r0 = "fst (run_round cfg (coin 0) (sched 0) 0 nd)"
    let ?rr1 = "run_round cfg (coin 1) (sched 1) 1 ?r0"
    assume early: "start_early cfg nd = None"
      and on: "\<not> snd (run_round cfg (coin 0) (sched 0) 0 nd)"
      and alive: "\<not> killed (nodeState ?r0)"
      and brk: "snd ?rr1"
    from early have nk: "\<not> killed (nodeState nd)"
      by (auto simp: start_early_def Let_def split: if_splits)
    have "round_loop cfg coin sched 0 nd = round_loop cfg coin sched 1 ?r0"
      using nk on round_loop_next[of 0 nd cfg coin sched] by (simp add: MAX_STEPS_def)
    also have "\<dots> = fst ?rr1"
      using alive brk by (simp add: round_loop_break MAX_STEPS_def)
    finally have "round_loop cfg coin sched 0 nd = fst ?rr1" .
    with early brk show "snd (start cfg coin sched nd) = fst ?rr1"
      by (simp add: start_def Let_def force_decision_def run_round_state)
  qed
  have c6: "nodeState (snd (stop nd)) = \<lparr>killed = True, x = None, decided = None, k = None\<rparr>"
    by (simp add: stop_def)
  show ?thesis by (intro conjI c1 c2 c3 c4 c5 c6)
qed

theorem terminal_state_kept_witness:
  "killed (nodeState (snd (stop (initial False V0))))
   \<and> message 0 (Some V1) (snd (stop (initial False V0)))
       = (NodeIsStopped, snd (stop (initial False V0)))
   \<and> start (four_one 0 False) heads three_zeros (snd (stop (initial False V0)))
       = (NodeIsStopped, snd (stop (initial False V0)))
   \<and> round_loop (four_one 0 False) heads three_zeros 0 (snd (stop (initial False V0)))
       = snd (stop (initial False V0))
   \<and> (0::int) < MAX_STEPS
   \<and> \<not> killed (nodeState (initial False V0))
   \<and> start_early (four_one 0 False) (initial False V0) = None
   \<and> snd (run_round (four_one 0 False) (heads 0) (three_zeros 0) 0 (initial False V0))
   \<and> round_loop (four_one 0 False) heads three_zeros 0 (initial False V0)
       = fst (run_round (four_one 0 False) (heads 0) (three_zeros 0) 0 (initial False V0))
   \<and> nodeState (snd (start (four_one 0 False) heads three_zeros (initial False V0)))
       = \<lparr>killed = False, x = Some V0, decided = Some True, k = Some 0\<rparr>
   \<and> \<not> snd (run_round (four_one 0 False) (heads 0) (three_ones_late 0) 0 (initial False V0))
   \<and> \<not> killed (nodeState (fst (run_round (four_one 0 False) (heads 0) (three_ones_late 0) 0
            (initial False V0))))
   \<and> snd (run_round (four_one 0 False) (heads 1) (three_ones_late 1) 1
            (fst (run_round (four_one 0 False) (heads 0) (three_ones_late 0) 0
               (initial False V0))))
   \<and> nodeState (snd (start (four_one 0 False) heads three_ones_late (initial False V0)))
       = \<lparr>killed = False, x = Some V1, decided = Some True, k = Some 1\<rparr>"
  using terminal_state_kept
      [of "snd (stop (initial False V0))" 0 "Some V1" "four_one 0 False" heads three_zeros 0]
    terminal_state_kept
      [of "initial False V0" 0 "Some V1" "four_one 0 False" heads three_zeros 0]
    terminal_state_kept
      [of "initial False V0" 0 "Some V1" "four_one 0 False" heads three_ones_late 0]
  by (simp add: run_defs four_one_def three_zeros_def three_ones_late_def heads_def)

text \<open>
  The claim as stated fails at \<open>/stop\<close>: a node that has decided 0 in round 0, and a
  node killed by the feasibility gate, both lose \<open>x\<close>, \<open>decided\<close> and \<open>k\<close> to a later
  \<open>/stop\<close>.
\<close>

theorem stop_changes_terminal_state:
  "decided (nodeState (snd (start (four_one 0 False) heads three_zeros (initial False V0))))
     = Some True
   \<and> nodeState (snd (start (four_one 0 False) heads three_zeros (initial False V0)))
     = \<lparr>killed = False, x = Some V0, decided = Some True, k = Some 0\<rparr>
   \<and> nodeState (snd (stop (snd (start (four_one 0 False) heads three_zeros (initial False V0)))))
     = \<lparr>killed = True, x = None, decided = None, k = None\<rparr>
   \<and> nodeState (snd (start \<lparr>nodeId = 0, N = 3, F = 2, isFaulty = False\<rparr> heads silence
        (initial False V0)))
     = \<lparr>killed = True, x = Some V0, decided = Some False, k = Some 11\<rparr>
   \<and> nodeState (snd (stop (snd (start \<lparr>nodeId = 0, N = 3, F = 2, isFaulty = False\<rparr> heads
        silence (initial False V0)))))
     = \<lparr>killed = True, x = None, decided = None, k = None\<rparr>"
  by (simp add: run_defs four_one_def three_zeros_def heads_def)

text \<open>
  What the code does when \<open>/stop\<close> arrives while round 0 waits: the stop nulls the
  state, the rest of round 0 sets \<open>x\<close>, the loop is left at the head of round 1, and the
  check \<open>!nodeState.decided\<close> behind the loop, true for \<open>null\<close>, forces the decision.
\<close>

lemma stop_during_wait_then_forced:
  "nodeState (fold serve (stop_in_round_0 0) (begin_round (four_one 0 False) 0 (initial False V0)))
     = \<lparr>killed = True, x = None, decided = None, k = None\<rparr>
   \<and> nodeState (snd (start (four_one 0 False) heads stop_in_round_0 (initial False V0)))
     = \<lparr>killed = True, x = Some V1, decided = Some True, k = Some 2\<rparr>"
  by (simp add: run_defs four_one_def stop_in_round_0_def heads_def)

subsection \<open>Faulty nodes\<close>

text \<open>
  C8 (amended). A faulty node has \<open>x\<close>, \<open>decided\<close> and \<open>k\<close> null. Its \<open>/start\<close> reports
  "Faulty node, not participating" (or "Node is stopped" once killed) and leaves the node
  as it is: nothing is sent, counted or decided, and the node never enters the loop.
  \<open>/stop\<close> and \<open>/message\<close> do not look at the faulty flag: \<open>/stop\<close> answers "stopped"
  and sets \<open>killed\<close>; \<open>/message\<close> acknowledges the vote and stores it, unless the node
  is killed. Neither changes \<open>x\<close>, \<open>decided\<close> or \<open>k\<close>, and neither sends a vote.
\<close>

theorem faulty_node_requests:
  assumes "isFaulty cfg"
    and "x (nodeState nd) = None" "decided (nodeState nd) = None" "k (nodeState nd) = None"
  shows "snd (start cfg coin sched nd) = nd
         \<and> fst (start cfg coin sched nd)
             = (if killed (nodeState nd) then NodeIsStopped else FaultyNotParticipating)
         \<and> fst (stop nd) = Stopped
         \<and> snd (stop nd) = nd\<lparr>nodeState := stopped\<rparr>
         \<and> fst (message step val nd) = (if killed (nodeState nd) then NodeIsStopped else Received)
         \<and> nodeState (snd (message step val nd)) = nodeState nd
         \<and> sent (snd (message step val nd)) = sent nd
         \<and> round_messages (snd (message step val nd)) step
             = (if killed (nodeState nd) then round_messages nd step
                else round_messages nd step @ [val])
         \<and> enter \<lparr>params = cfg, local_node = nd, in_loop = False\<rparr>
             = \<lparr>params = cfg, local_node = nd, in_loop = False\<rparr>"
  using assms
  by (cases nd, cases "nodeState nd")
     (simp add: start_def start_early_def stop_def stopped_def message_def round_messages_def
        enter_def)

theorem faulty_node_requests_witness:
  "isFaulty (four_one 3 True)
   \<and> x (nodeState (initial True V1)) = None
   \<and> decided (nodeState (initial True V1)) = None
   \<and> k (nodeState (initial True V1)) = None
   \<and> start (four_one 3 True) heads three_zeros (initial True V1)
       = (FaultyNotParticipating, initial True V1)
   \<and> fst (message 0 (Some V0) (initial True V1)) = Received
   \<and> round_messages (snd (message 0 (Some V0) (initial True V1))) 0 = [Some V0]
   \<and> killed (nodeState (snd (stop (initial True V1))))"
  using faulty_node_requests[of "four_one 3 True" "initial True V1" heads three_zeros 0 "Some V0"]
  by (simp add: run_defs four_one_def stopped_def)

text \<open>
  The claim as stated fails at \<open>/message\<close> and \<open>/stop\<close>: a faulty node acknowledges a
  vote and stores it, and \<open>/stop\<close> answers "stopped" and sets its \<open>killed\<close> flag.
\<close>

theorem faulty_node_accepts_vote_and_stop:
  "fst (message 0 (Some V0) (initial True V1)) = Received
   \<and> round_messages (initial True V1) 0 = []
   \<and> round_messages (snd (message 0 (Some V0) (initial True V1))) 0 = [Some V0]
   \<and> fst (stop (initial True V1)) = Stopped
   \<and> \<not> killed (nodeState (initial True V1))
   \<and> killed (nodeState (snd (stop (initial True V1))))"
  by (simp add: run_defs)

subsection \<open>No vote to oneself\<close>

lemma peers_length:
  assumes "0 \<le> a" "a < n"
  shows "length (filter (\<lambda>i. i \<noteq> a) [0..n - 1]) = nat (n - 1)"
proof -
  from assms have "[0..n - 1] = [0..a - 1] @ a # [a + 1..n - 1]"
    by (intro upto_split3) simp_all
  moreover have "filter (\<lambda>i. i \<noteq> a) [0..a - 1] = [0..a - 1]"
    by (rule filter_True) auto
  moreover have "filter (\<lambda>i. i \<noteq> a) [a + 1..n - 1] = [a + 1..n - 1]"
    by (rule filter_True) auto
  ultimately have "filter (\<lambda>i. i \<noteq> a) [0..n - 1] = [0..a - 1] @ [a + 1..n - 1]"
    by simp
  with assms show ?thesis by simp
qed

lemma begin_round_sent:
  "sent (begin_round cfg rnd nd) =
     sent nd @ map (\<lambda>i. (i, rnd, x (nodeState nd))) (filter (\<lambda>i. i \<noteq> nodeId cfg) [0..N cfg - 1])"
  by (simp add: begin_round_def broadcast_def)

lemma fold_deliver_others:
  "\<forall>pk \<in> set pks. fst pk \<noteq> nodeId (params p) \<Longrightarrow> fold deliver pks p = p"
  by (induction pks) (simp_all add: deliver_def)

lemma run_round_own_belief:
  "snd (run_round cfg c evs rnd (nd\<lparr>nodeState := (nodeState nd)\<lparr>x := b\<rparr>\<rparr>))
     = snd (run_round cfg c evs rnd nd)"
  "nodeState (fst (run_round cfg c evs rnd (nd\<lparr>nodeState := (nodeState nd)\<lparr>x := b\<rparr>\<rparr>)))
     = nodeState (fst (run_round cfg c evs rnd nd))"
proof -
  let ?nd' = "nd\<lparr>nodeState := (nodeState nd)\<lparr>x := b\<rparr>\<rparr>"
  have "receivedMessages (fold serve evs (begin_round cfg rnd ?nd'))
          = receivedMessages (fold serve evs (begin_round cfg rnd nd))"
    by (rule fold_serve_messages_cong) (simp_all add: begin_round_state)
  then have rm: "round_messages (fold serve evs (begin_round cfg rnd ?nd')) rnd
          = round_messages (fold serve evs (begin_round cfg rnd nd)) rnd"
    by (simp add: round_messages_def)
  show br: "snd (run_round cfg c evs rnd ?nd') = snd (run_round cfg c evs rnd nd)"
    by (simp add: run_round_break rm)
  show "nodeState (fst (run_round cfg c evs rnd ?nd')) = nodeState (fst (run_round cfg c evs rnd nd))"
    by (simp add: run_round_state rm br)
qed

text \<open>
  C10. No vote sent by \<open>/start\<close> goes to the node's own index: a broadcast goes to the
  indices below \<open>N\<close> other than \<open>nodeId\<close>, which are \<open>N - 1\<close> peers when \<open>nodeId\<close> is
  one of them. The broadcast stores nothing at the sender, and delivering it leaves the
  sender as it is. What a round decides, and the state it leaves, do not depend on the
  value of \<open>x\<close> that the node holds when the round begins.
\<close>

theorem no_vote_to_self:
  "(\<forall>pk \<in> set (drop (length (sent nd)) (sent (snd (start cfg coin sched nd)))).
      fst pk \<noteq> nodeId cfg)
   \<and> map fst (drop (length (sent nd)) (sent (begin_round cfg rnd nd)))
       = filter (\<lambda>i. i \<noteq> nodeId cfg) [0..N cfg - 1]
   \<and> (0 \<le> nodeId cfg \<and> nodeId cfg < N cfg \<longrightarrow>
        length (drop (length (sent nd)) (sent (begin_round cfg rnd nd))) = nat (N cfg - 1))
   \<and> receivedMessages (begin_round cfg rnd nd) = receivedMessages nd
   \<and> fold deliver (drop (length (sent nd)) (sent (begin_round cfg rnd nd)))
        \<lparr>params = cfg, local_node = nd', in_loop = l\<rparr>
       = \<lparr>params = cfg, local_node = nd', in_loop = l\<rparr>
   \<and> snd (run_round cfg c evs rnd (nd\<lparr>nodeState := (nodeState nd)\<lparr>x := b\<rparr>\<rparr>))
       = snd (run_round cfg c evs rnd nd)
   \<and> nodeState (fst (run_round cfg c evs rnd (nd\<lparr>nodeState := (nodeState nd)\<lparr>x := b\<rparr>\<rparr>)))
       = nodeState (fst (run_round cfg c evs rnd nd))"
proof -
  from start_sent[of cfg coin sched nd]
  have c1: "\<forall>pk \<in> set (drop (length (sent nd)) (sent (snd (start cfg coin sched nd)))).
      fst pk \<noteq> nodeId cfg"
    by auto
  have c2: "map fst (drop (length (sent nd)) (sent (begin_round cfg rnd nd)))
       = filter (\<lambda>i. i \<noteq> nodeId cfg) [0..N cfg - 1]"
    by (simp add: begin_round_sent comp_def)
  have c3: "0 \<le> nodeId cfg \<and> nodeId cfg < N cfg \<longrightarrow>
        length (drop (length (sent nd)) (sent (begin_round cfg rnd nd))) = nat (N cfg - 1)"
    by (simp add: begin_round_sent peers_length)
  have c4: "receivedMessages (begin_round cfg rnd nd) = receivedMessages nd"
    by (simp add: begin_round_state)
  have c5: "fold deliver (drop (length (sent nd)) (sent (begin_round cfg rnd nd)))
        \<lparr>params = cfg, local_node = nd', in_loop = l\<rparr>
       = \<lparr>params = cfg, local_node = nd', in_loop = l\<rparr>"
    by (rule fold_deliver_others) (auto simp: begin_round_sent)
  show ?thesis
    by (intro conjI c1 c2 c3 c4 c5 run_round_own_belief)
qed

theorem no_vote_to_self_witness:
  "sent (snd (start (four_one 2 False) heads silence (initial False V0)))
     = [(0, 0, Some V0), (1, 0, Some V0), (3, 0, Some V0),
        (0, 1, Some V0), (1, 1, Some V0), (3, 1, Some V0)]
   \<and> 0 \<le> nodeId (four_one 2 False) \<and> nodeId (four_one 2 False) < N (four_one 2 False)
   \<and> length (drop (length (sent (initial False V0)))
        (sent (begin_round (four_one 2 False) 0 (initial False V0)))) = 3
   \<and> nodeState (fst (run_round (four_one 2 False) True
        [Message 0 (Some V1), Message 0 (Some V1), Message 0 (Some V1)] 0 (initial False V0)))
     = \<lparr>killed = False, x = Some V1, decided = Some True, k = Some 0\<rparr>"
  using no_vote_to_self[of "initial False V0" "four_one 2 False" heads silence 0 "initial False V0"
      False True "[Message 0 (Some V1), Message 0 (Some V1), Message 0 (Some V1)]" "Some V1"]
  by (simp add: run_defs four_one_def silence_def heads_def upto_rec1)

subsection \<open>Scenario A\<close>

lemma deliver_hit:
  "fst pk = nodeId (params p) \<Longrightarrow>
   deliver pk p = p\<lparr>local_node := snd (message (fst (snd pk)) (snd (snd pk)) (local_node p))\<rparr>"
  by (simp add: deliver_def)

lemma deliver_miss: "fst pk \<noteq> nodeId (params p) \<Longrightarrow> deliver pk p = p"
  by (simp add: deliver_def)

lemma message_alive:
  "\<not> killed (nodeState nd) \<Longrightarrow>
   snd (message step val nd) =
     nd\<lparr>receivedMessages := (receivedMessages nd)(step \<mapsto> round_messages nd step @ [val])\<rparr>"
  by (simp add: message_def round_messages_def)

lemma net_process_out: "\<not> in_loop p \<Longrightarrow> net_process coin rnd p = p"
  by (simp add: net_process_def)

lemma net_process_break:
  "in_loop p \<Longrightarrow> snd (process_round (params p) coin rnd (local_node p)) \<Longrightarrow>
   net_process coin rnd p =
     p\<lparr>local_node := force_decision (fst (process_round (params p) coin rnd (local_node p))),
       in_loop := False\<rparr>"
  by (simp add: net_process_def)

lemma net_process_on:
  "in_loop p \<Longrightarrow> \<not> snd (process_round (params p) coin rnd (local_node p)) \<Longrightarrow>
   net_process coin rnd p = p\<lparr>local_node := fst (process_round (params p) coin rnd (local_node p))\<rparr>"
  by (simp add: net_process_def)

lemma net_begin_out: "\<not> in_loop p \<Longrightarrow> net_begin rnd p = p"
  by (simp add: net_begin_def)

lemma net_begin_on:
  "in_loop p \<Longrightarrow> rnd < MAX_STEPS \<Longrightarrow> \<not> killed (nodeState (local_node p)) \<Longrightarrow>
   net_begin rnd p = p\<lparr>local_node := begin_round (params p) rnd (local_node p)\<rparr>"
  by (simp add: net_begin_def)

lemma net_begin_leave:
  "in_loop p \<Longrightarrow> \<not> (rnd < MAX_STEPS \<and> \<not> killed (nodeState (local_node p))) \<Longrightarrow>
   net_begin rnd p = p\<lparr>local_node := force_decision (local_node p), in_loop := False\<rparr>"
  by (auto simp: net_begin_def)

lemma process_round_node:
  "fst (process_round cfg coin rnd nd) =
     nd\<lparr>nodeState := (nodeState nd)\<lparr>x := Some (tally coin (round_messages nd rnd)),
                    decided := (if snd (process_round cfg coin rnd nd) then Some True
                                else decided (nodeState nd))\<rparr>\<rparr>"
  by (simp add: process_round_def Let_def)

lemma peers4:
  "filter (\<lambda>i. i \<noteq> 0) [0..3] = [1, 2, 3::int]"
  "filter (\<lambda>i. i \<noteq> 1) [0..3] = [0, 2, 3::int]"
  "filter (\<lambda>i. i \<noteq> 2) [0..3] = [0, 1, 3::int]"
  "filter (\<lambda>i. i \<noteq> 3) [0..3] = [0, 1, 2::int]"
  by (simp_all add: upto_rec1)

lemmas net_eval =
  scenario_A_def fresh_def four_one_def initial_def enter_def start_early_def
  exceeds_tolerance_iff MAX_STEPS_def net_round_def Let_def
  net_begin_out net_begin_on net_begin_leave begin_round_def broadcast_def peers4
  deliver_hit deliver_miss message_alive round_messages_def
  net_process_out net_process_break net_process_on process_round_break process_round_node
  tally_count randomBit_def force_decision_def

lemma entered_live:
  "map enter (scenario_A False) =
     [\<lparr>params = four_one 0 False, local_node = initial False V0, in_loop = True\<rparr>,
      \<lparr>params = four_one 1 False, local_node = initial False V0, in_loop = True\<rparr>,
      \<lparr>params = four_one 2 False, local_node = initial False V0, in_loop = True\<rparr>,
      \<lparr>params = four_one 3 False, local_node = initial False V1, in_loop = True\<rparr>]"
  by (simp add: scenario_A_def fresh_def four_one_def initial_def enter_def start_early_def
      exceeds_tolerance_iff)

lemma entered_silent:
  "map enter (scenario_A True) =
     [\<lparr>params = four_one 0 False, local_node = initial False V0, in_loop = True\<rparr>,
      \<lparr>params = four_one 1 False, local_node = initial False V0, in_loop = True\<rparr>,
      \<lparr>params = four_one 2 False, local_node = initial False V0, in_loop = True\<rparr>,
      \<lparr>params = four_one 3 True, local_node = initial True V1, in_loop = False\<rparr>]"
  by (simp add: scenario_A_def fresh_def four_one_def initial_def enter_def start_early_def
      exceeds_tolerance_iff)

lemma live_round_0:
  "net_round coins 0 (map enter (scenario_A False)) =
     [\<lparr>params = four_one 0 False,
       local_node =
         \<lparr>nodeState = \<lparr>killed = False, x = Some V0, decided = Some False, k = Some 0\<rparr>,
          receivedMessages = [0 \<mapsto> [Some V0, Some V0, Some V1]],
          sent = [(1, 0, Some V0), (2, 0, Some V0), (3, 0, Some V0)]\<rparr>,
       in_loop = True\<rparr>,
      \<lparr>params = four_one 1 False,
       local_node =
         \<lparr>nodeState = \<lparr>killed = False, x = Some V0, decided = Some False, k = Some 0\<rparr>,
          receivedMessages = [0 \<mapsto> [Some V0, Some V0, Some V1]],
          sent = [(0, 0, Some V0), (2, 0, Some V0), (3, 0, Some V0)]\<rparr>,
       in_loop = True\<rparr>,
      \<lparr>params = four_one 2 False,
       local_node =
         \<lparr>nodeState = \<lparr>killed = False, x = Some V0, decided = Some False, k = Some 0\<rparr>,
          receivedMessages = [0 \<mapsto> [Some V0, Some V0, Some V1]],
          sent = [(0, 0, Some V0), (1, 0, Some V0), (3, 0, Some V0)]\<rparr>,
       in_loop = True\<rparr>,
      \<lparr>params = four_one 3 False,
       local_node =
         \<lparr>nodeState = \<lparr>killed = False, x = Some V0, decided = Some True, k = Some 0\<rparr>,
          receivedMessages = [0 \<mapsto> [Some V0, Some V0, Some V0]],
          sent = [(0, 0, Some V1), (1, 0, Some V1), (2, 0, Some V1)]\<rparr>,
       in_loop = False\<rparr>]"
  apply (simp only: entered_live net_round_def Let_def list.map)
  apply (simp add: net_eval)
  done

lemma live_round_1:
  "net_round coins 1
     [\<lparr>params = four_one 0 False,
       local_node =
         \<lparr>nodeState = \<lparr>killed = False, x = Some V0, decided = Some False, k = Some 0\<rparr>,
          receivedMessages = [0 \<mapsto> [Some V0, Some V0, Some V1]],
          sent = [(1, 0, Some V0), (2, 0, Some V0), (3, 0, Some V0)]\<rparr>,
       in_loop = True\<rparr>,
      \<lparr>params = four_one 1 False,
       local_node =
         \<lparr>nodeState = \<lparr>killed = False, x = Some V0, decided = Some False, k = Some 0\<rparr>,
          receivedMessages = [0 \<mapsto> [Some V0, Some V0, Some V1]],
          sent = [(0, 0, Some V0), (2, 0, Some V0), (3, 0, Some V0)]\<rparr>,
       in_loop = True\<rparr>,
      \<lparr>params = four_one 2 False,
       local_node =
         \<lparr>nodeState = \<lparr>killed = False, x = Some V0, decided = Some False, k = Some 0\<rparr>,
          receivedMessages = [0 \<mapsto> [Some V0, Some V0, Some V1]],
          sent = [(0, 0, Some V0), (1, 0, Some V0), (3, 0, Some V0)]\<rparr>,
       in_loop = True\<rparr>,
      \<lparr>params = four_one 3 False,
       local_node =
         \<lparr>nodeState = \<lparr>killed = False, x = Some V0, decided = Some True, k = Some 0\<rparr>,
          receivedMessages = [0 \<mapsto> [Some V0, Some V0, Some V0]],
          sent = [(0, 0, Some V1), (1, 0, Some V1), (2, 0, Some V1)]\<rparr>,
       in_loop = False\<rparr>] =
     [\<lparr>params = four_one 0 False,
       local_node =
         \<lparr>nodeState = \<lparr>killed = False, x = Some V0, decided = Some False, k = Some 1\<rparr>,
          receivedMessages = [0 \<mapsto> [Some V0, Some V0, Some V1], 1 \<mapsto> [Some V0, Some V0]],
          sent = [(1, 0, Some V0), (2, 0, Some V0), (3, 0, Some V0), (1, 1, Some V0), (2, 1, Some V0), (3, 1, Some V0)]\<rparr>,
       in_loop = True\<rparr>,
      \<lparr>params = four_one 1 False,
       local_node =
         \<lparr>nodeState = \<lparr>killed = False, x = Some V0, decided = Some False, k = Some 1\<rparr>,
          receivedMessages = [0 \<mapsto> [Some V0, Some V0, Some V1], 1 \<mapsto> [Some V0, Some V0]],
          sent = [(0, 0, Some V0), (2, 0, Some V0), (3, 0, Some V0), (0, 1, Some V0), (2, 1, Some V0), (3, 1, Some V0)]\<rparr>,
       in_loop = True\<rparr>,
      \<lparr>params = four_one 2 False,
       local_node =
         \<lparr>nodeState = \<lparr>killed = False, x = Some V0, decided = Some False, k = Some 1\<rparr>,
          receivedMessages = [0 \<mapsto> [Some V0, Some V0, Some V1], 1 \<mapsto> [Some V0, Some V0]],
          sent = [(0, 0, Some V0), (1, 0, Some V0), (3, 0, Some V0), (0, 1, Some V0), (1, 1, Some V0), (3, 1, Some V0)]\<rparr>,
       in_loop = True\<rparr>,
      \<lparr>params = four_one 3 False,
       local_node =
         \<lparr>nodeState = \<lparr>killed = False, x = Some V0, decided = Some True, k = Some 0\<rparr>,
          receivedMessages = [0 \<mapsto> [Some V0, Some V0, Some V0], 1 \<mapsto> [Some V0, Some V0, Some V0]],
          sent = [(0, 0, Some V1), (1, 0, Some V1), (2, 0, Some V1)]\<rparr>,
       in_loop = False\<rparr>]"
  apply (simp only: net_round_def Let_def list.map)
  apply (simp add: net_eval)
  done

lemma live_end:
  "net_run coins (scenario_A False) =
     [\<lparr>params = four_one 0 False,
       local_node =
         \<lparr>nodeState = \<lparr>killed = False, x = Some V1, decided = Some True, k = Some 2\<rparr>,
          receivedMessages = [0 \<mapsto> [Some V0, Some V0, Some V1], 1 \<mapsto> [Some V0, Some V0]],
          sent = [(1, 0, Some V0), (2, 0, Some V0), (3, 0, Some V0), (1, 1, Some V0), (2, 1, Some V0), (3, 1, Some V0)]\<rparr>,
       in_loop = False\<rparr>,
      \<lparr>params = four_one 1 False,
       local_node =
         \<lparr>nodeState = \<lparr>killed = False, x = Some V1, decided = Some True, k = Some 2\<rparr>,
          receivedMessages = [0 \<mapsto> [Some V0, Some V0, Some V1], 1 \<mapsto> [Some V0, Some V0]],
          sent = [(0, 0, Some V0), (2, 0, Some V0), (3, 0, Some V0), (0, 1, Some V0), (2, 1, Some V0), (3, 1, Some V0)]\<rparr>,
       in_loop = False\<rparr>,
      \<lparr>params = four_one 2 False,
       local_node =
         \<lparr>nodeState = \<lparr>killed = False, x = Some V1, decided = Some True, k = Some 2\<rparr>,
          receivedMessages = [0 \<mapsto> [Some V0, Some V0, Some V1], 1 \<mapsto> [Some V0, Some V0]],
          sent = [(0, 0, Some V0), (1, 0, Some V0), (3, 0, Some V0), (0, 1, Some V0), (1, 1, Some V0), (3, 1, Some V0)]\<rparr>,
       in_loop = False\<rparr>,
      \<lparr>params = four_one 3 False,
       local_node =
         \<lparr>nodeState = \<lparr>killed = False, x = Some V0, decided = Some True, k = Some 0\<rparr>,
          receivedMessages = [0 \<mapsto> [Some V0, Some V0, Some V0], 1 \<mapsto> [Some V0, Some V0, Some V0]],
          sent = [(0, 0, Some V1), (1, 0, Some V1), (2, 0, Some V1)]\<rparr>,
       in_loop = False\<rparr>]"
proof -
  have "net_run coins (scenario_A False) =
          map (net_begin 2) (net_round coins 1 (net_round coins 0 (map enter (scenario_A False))))"
    by (simp add: net_run_def net_loop.simps MAX_STEPS_def)
  also have "\<dots> =
     [\<lparr>params = four_one 0 False,
       local_node =
         \<lparr>nodeState = \<lparr>killed = False, x = Some V1, decided = Some True, k = Some 2\<rparr>,
          receivedMessages = [0 \<mapsto> [Some V0, Some V0, Some V1], 1 \<mapsto> [Some V0, Some V0]],
          sent = [(1, 0, Some V0), (2, 0, Some V0), (3, 0, Some V0), (1, 1, Some V0), (2, 1, Some V0), (3, 1, Some V0)]\<rparr>,
       in_loop = False\<rparr>,
      \<lparr>params = four_one 1 False,
       local_node =
         \<lparr>nodeState = \<lparr>killed = False, x = Some V1, decided = Some True, k = Some 2\<rparr>,
          receivedMessages = [0 \<mapsto> [Some V0, Some V0, Some V1], 1 \<mapsto> [Some V0, Some V0]],
          sent = [(0, 0, Some V0), (2, 0, Some V0), (3, 0, Some V0), (0, 1, Some V0), (2, 1, Some V0), (3, 1, Some V0)]\<rparr>,
       in_loop = False\<rparr>,
      \<lparr>params = four_one 2 False,
       local_node =
         \<lparr>nodeState = \<lparr>killed = False, x = Some V1, decided = Some True, k = Some 2\<rparr>,
          receivedMessages = [0 \<mapsto> [Some V0, Some V0, Some V1], 1 \<mapsto> [Some V0, Some V0]],
          sent = [(0, 0, Some V0), (1, 0, Some V0), (3, 0, Some V0), (0, 1, Some V0), (1, 1, Some V0), (3, 1, Some V0)]\<rparr>,
       in_loop = False\<rparr>,
      \<lparr>params = four_one 3 False,
       local_node =
         \<lparr>nodeState = \<lparr>killed = False, x = Some V0, decided = Some True, k = Some 0\<rparr>,
          receivedMessages = [0 \<mapsto> [Some V0, Some V0, Some V0], 1 \<mapsto> [Some V0, Some V0, Some V0]],
          sent = [(0, 0, Some V1), (1, 0, Some V1), (2, 0, Some V1)]\<rparr>,
       in_loop = False\<rparr>]"
    apply (simp only: live_round_0 live_round_1 list.map)
    apply (simp add: net_eval)
    done
  finally show ?thesis .
qed

lemma silent_round_0:
  "net_round coins 0 (map enter (scenario_A True)) =
     [\<lparr>params = four_one 0 False,
       local_node =
         \<lparr>nodeState = \<lparr>killed = False, x = Some V0, decided = Some False, k = Some 0\<rparr>,
          receivedMessages = [0 \<mapsto> [Some V0, Some V0]],
          sent = [(1, 0, Some V0), (2, 0, Some V0), (3, 0, Some V0)]\<rparr>,
       in_loop = True\<rparr>,
      \<lparr>params = four_one 1 False,
       local_node =
         \<lparr>nodeState = \<lparr>killed = False, x = Some V0, decided = Some False, k = Some 0\<rparr>,
          receivedMessages = [0 \<mapsto> [Some V0, Some V0]],
          sent = [(0, 0, Some V0), (2, 0, Some V0), (3, 0, Some V0)]\<rparr>,
       in_loop = True\<rparr>,
      \<lparr>params = four_one 2 False,
       local_node =
         \<lparr>nodeState = \<lparr>killed = False, x = Some V0, decided = Some False, k = Some 0\<rparr>,
          receivedMessages = [0 \<mapsto> [Some V0, Some V0]],
          sent = [(0, 0, Some V0), (1, 0, Some V0), (3, 0, Some V0)]\<rparr>,
       in_loop = True\<rparr>,
      \<lparr>params = four_one 3 True,
       local_node =
         \<lparr>nodeState = \<lparr>killed = False, x = None, decided = None, k = None\<rparr>,
          receivedMessages = [0 \<mapsto> [Some V0, Some V0, Some V0]],
          sent = []\<rparr>,
       in_loop = False\<rparr>]"
  apply (simp only: entered_silent net_round_def Let_def list.map)
  apply (simp add: net_eval)
  done

lemma silent_round_1:
  "net_round coins 1
     [\<lparr>params = four_one 0 False,
       local_node =
         \<lparr>nodeState = \<lparr>killed = False, x = Some V0, decided = Some False, k = Some 0\<rparr>,
          receivedMessages = [0 \<mapsto> [Some V0, Some V0]],
          sent = [(1, 0, Some V0), (2, 0, Some V0), (3, 0, Some V0)]\<rparr>,
       in_loop = True\<rparr>,
      \<lparr>params = four_one 1 False,
       local_node =
         \<lparr>nodeState = \<lparr>killed = False, x = Some V0, decided = Some False, k = Some 0\<rparr>,
          receivedMessages = [0 \<mapsto> [Some V0, Some V0]],
          sent = [(0, 0, Some V0), (2, 0, Some V0), (3, 0, Some V0)]\<rparr>,
       in_loop = True\<rparr>,
      \<lparr>params = four_one 2 False,
       local_node =
         \<lparr>nodeState = \<lparr>killed = False, x = Some V0, decided = Some False, k = Some 0\<rparr>,
          receivedMessages = [0 \<mapsto> [Some V0, Some V0]],
          sent = [(0, 0, Some V0), (1, 0, Some V0), (3, 0, Some V0)]\<rparr>,
       in_loop = True\<rparr>,
      \<lparr>params = four_one 3 True,
       local_node =
         \<lparr>nodeState = \<lparr>killed = False, x = None, decided = None, k = None\<rparr>,
          receivedMessages = [0 \<mapsto> [Some V0, Some V0, Some V0]],
          sent = []\<rparr>,
       in_loop = False\<rparr>] =
     [\<lparr>params = four_one 0 False,
       local_node =
         \<lparr>nodeState = \<lparr>killed = False, x = Some V0, decided = Some False, k = Some 1\<rparr>,
          receivedMessages = [0 \<mapsto> [Some V0, Some V0], 1 \<mapsto> [Some V0, Some V0]],
          sent = [(1, 0, Some V0), (2, 0, Some V0), (3, 0, Some V0), (1, 1, Some V0), (2, 1, Some V0), (3, 1, Some V0)]\<rparr>,
       in_loop = True\<rparr>,
      \<lparr>params = four_one 1 False,
       local_node =
         \<lparr>nodeState = \<lparr>killed = False, x = Some V0, decided = Some False, k = Some 1\<rparr>,
          receivedMessages = [0 \<mapsto> [Some V0, Some V0], 1 \<mapsto> [Some V0, Some V0]],
          sent = [(0, 0, Some V0), (2, 0, Some V0), (3, 0, Some V0), (0, 1, Some V0), (2, 1, Some V0), (3, 1, Some V0)]\<rparr>,
       in_loop = True\<rparr>,
      \<lparr>params = four_one 2 False,
       local_node =
         \<lparr>nodeState = \<lparr>killed = False, x = Some V0, decided = Some False, k = Some 1\<rparr>,
          receivedMessages = [0 \<mapsto> [Some V0, Some V0], 1 \<mapsto> [Some V0, Some V0]],
          sent = [(0, 0, Some V0), (1, 0, Some V0), (3, 0, Some V0), (0, 1, Some V0), (1, 1, Some V0), (3, 1, Some V0)]\<rparr>,
       in_loop = True\<rparr>,
      \<lparr>params = four_one 3 True,
       local_node =
         \<lparr>nodeState = \<lparr>killed = False, x = None, decided = None, k = None\<rparr>,
          receivedMessages = [0 \<mapsto> [Some V0, Some V0, Some V0], 1 \<mapsto> [Some V0, Some V0, Some V0]],
          sent = []\<rparr>,
       in_loop = False\<rparr>]"
  apply (simp only: net_round_def Let_def list.map)
  apply (simp add: net_eval)
  done

lemma silent_end:
  "net_run coins (scenario_A True) =
     [\<lparr>params = four_one 0 False,
       local_node =
         \<lparr>nodeState = \<lparr>killed = False, x = Some V1, decided = Some True, k = Some 2\<rparr>,
          receivedMessages = [0 \<mapsto> [Some V0, Some V0], 1 \<mapsto> [Some V0, Some V0]],
          sent = [(1, 0, Some V0), (2, 0, Some V0), (3, 0, Some V0), (1, 1, Some V0), (2, 1, Some V0), (3, 1, Some V0)]\<rparr>,
       in_loop = False\<rparr>,
      \<lparr>params = four_one 1 False,
       local_node =
         \<lparr>nodeState = \<lparr>killed = False, x = Some V1, decided = Some True, k = Some 2\<rparr>,
          receivedMessages = [0 \<mapsto> [Some V0, Some V0], 1 \<mapsto> [Some V0, Some V0]],
          sent = [(0, 0, Some V0), (2, 0, Some V0), (3, 0, Some V0), (0, 1, Some V0), (2, 1, Some V0), (3, 1, Some V0)]\<rparr>,
       in_loop = False\<rparr>,
      \<lparr>params = four_one 2 False,
       local_node =
         \<lparr>nodeState = \<lparr>killed = False, x = Some V1, decided = Some True, k = Some 2\<rparr>,
          receivedMessages = [0 \<mapsto> [Some V0, Some V0], 1 \<mapsto> [Some V0, Some V0]],
          sent = [(0, 0, Some V0), (1, 0, Some V0), (3, 0, Some V0), (0, 1, Some V0), (1, 1, Some V0), (3, 1, Some V0)]\<rparr>,
       in_loop = False\<rparr>,
      \<lparr>params = four_one 3 True,
       local_node =
         \<lparr>nodeState = \<lparr>killed = False, x = None, decided = None, k = None\<rparr>,
          receivedMessages = [0 \<mapsto> [Some V0, Some V0, Some V0], 1 \<mapsto> [Some V0, Some V0, Some V0]],
          sent = []\<rparr>,
       in_loop = False\<rparr>]"
proof -
  have "net_run coins (scenario_A True) =
          map (net_begin 2) (net_round coins 1 (net_round coins 0 (map enter (scenario_A True))))"
    by (simp add: net_run_def net_loop.simps MAX_STEPS_def)
  also have "\<dots> =
     [\<lparr>params = four_one 0 False,
       local_node =
         \<lparr>nodeState = \<lparr>killed = False, x = Some V1, decided = Some True, k = Some 2\<rparr>,
          receivedMessages = [0 \<mapsto> [Some V0, Some V0], 1 \<mapsto> [Some V0, Some V0]],
          sent = [(1, 0, Some V0), (2, 0, Some V0), (3, 0, Some V0), (1, 1, Some V0), (2, 1, Some V0), (3, 1, Some V0)]\<rparr>,
       in_loop = False\<rparr>,
      \<lparr>params = four_one 1 False,
       local_node =
         \<lparr>nodeState = \<lparr>killed = False, x = Some V1, decided = Some True, k = Some 2\<rparr>,
          receivedMessages = [0 \<mapsto> [Some V0, Some V0], 1 \<mapsto> [Some V0, Some V0]],
          sent = [(0, 0, Some V0), (2, 0, Some V0), (3, 0, Some V0), (0, 1, Some V0), (2, 1, Some V0), (3, 1, Some V0)]\<rparr>,
       in_loop = False\<rparr>,
      \<lparr>params = four_one 2 False,
       local_node =
         \<lparr>nodeState = \<lparr>killed = False, x = Some V1, decided = Some True, k = Some 2\<rparr>,
          receivedMessages = [0 \<mapsto> [Some V0, Some V0], 1 \<mapsto> [Some V0, Some V0]],
          sent = [(0, 0, Some V0), (1, 0, Some V0), (3, 0, Some V0), (0, 1, Some V0), (1, 1, Some V0), (3, 1, Some V0)]\<rparr>,
       in_loop = False\<rparr>,
      \<lparr>params = four_one 3 True,
       local_node =
         \<lparr>nodeState = \<lparr>killed = False, x = None, decided = None, k = None\<rparr>,
          receivedMessages = [0 \<mapsto> [Some V0, Some V0, Some V0], 1 \<mapsto> [Some V0, Some V0, Some V0]],
          sent = []\<rparr>,
       in_loop = False\<rparr>]"
    apply (simp only: silent_round_0 silent_round_1 list.map)
    apply (simp add: net_eval)
    done
  finally show ?thesis .
qed

lemma fold_serve_count:
  "count_list (round_messages (fold serve evs nd) s) w
     \<le> count_list (round_messages nd s) w + count_list evs (Message s w)"
proof (induction evs arbitrary: nd)
  case Nil
  show ?case by simp
next
  case (Cons ev evs)
  have "count_list (round_messages (serve ev nd) s) w
          \<le> count_list (round_messages nd s) w + (if ev = Message s w then 1 else 0)"
    by (cases ev) (auto simp: message_def stop_def round_messages_def)
  with Cons.IH[of "serve ev nd"] show ?case by auto
qed

lemma round_messages_begin:
  "round_messages (begin_round cfg rnd nd) s = round_messages nd s"
  by (simp add: round_messages_def begin_round_state)

lemma start_round_0_decision:
  assumes "decided (nodeState nd) \<noteq> Some True"
    and "decided (nodeState (snd (start cfg coin sched nd))) = Some True"
    and "x (nodeState (snd (start cfg coin sched nd))) = Some v"
    and "k (nodeState (snd (start cfg coin sched nd))) = Some 0"
  shows "N cfg - F cfg
           \<le> int (count_list (round_messages nd 0) (Some v)
                   + count_list (sched 0) (Message 0 (Some v)))"
proof (cases "start_early cfg nd")
  case (Some answer)
  with assms(1,2) show ?thesis
    by (auto simp: start_def start_early_def Let_def split: if_splits)
next
  case None
  let ?rr = "run_round cfg (coin 0) (sched 0) 0 nd"
  let ?res = "round_loop cfg coin sched 0 nd"
  let ?buf = "round_messages (fold serve (sched 0) (begin_round cfg 0 nd)) 0"
  from None have st: "snd (start cfg coin sched nd) = force_decision ?res"
    by (simp add: start_def Let_def)
  from None have nk: "\<not> killed (nodeState nd)"
    by (auto simp: start_early_def Let_def split: if_splits)
  show ?thesis
  proof (cases "snd ?rr")
    case True
    with nk have res: "?res = fst ?rr"
      by (simp add: round_loop_break MAX_STEPS_def)
    with True have "force_decision ?res = fst ?rr"
      by (simp add: force_decision_def run_round_state)
    with assms(3) st have v: "v = tally (coin 0) ?buf"
      by (simp add: run_round_state)
    from True have "N cfg - F cfg \<le> int (count_list ?buf (Some (tally (coin 0) ?buf)))"
      by (simp add: run_round_break)
    with v have "N cfg - F cfg \<le> int (count_list ?buf (Some v))"
      by simp
    moreover have "count_list ?buf (Some v)
        \<le> count_list (round_messages nd 0) (Some v) + count_list (sched 0) (Message 0 (Some v))"
      using fold_serve_count[of "sched 0" "begin_round cfg 0 nd" 0 "Some v"]
      by (simp add: round_messages_begin)
    ultimately show ?thesis by linarith
  next
    case False
    with nk have res: "?res = round_loop cfg coin sched 1 (fst ?rr)"
      using round_loop_next[of 0 nd cfg coin sched] by (simp add: MAX_STEPS_def)
    have kr: "k (nodeState (fst ?rr)) = None \<or> \<not> killed (nodeState (fst ?rr))"
      using nk by (simp add: run_round_state stopped_def)
    from round_loop_round[of cfg coin sched 1 "fst ?rr"] kr
    have "k (nodeState ?res) \<noteq> Some 0"
      unfolding res by (auto simp: MAX_STEPS_def)
    then have "k (nodeState (force_decision ?res)) \<noteq> Some 0"
      by (simp add: force_decision_def)
    with assms(4) st show ?thesis by simp
  qed
qed

lemma begun_A:
  "map (\<lambda>p. sent (local_node p)) (map (net_begin 0) (map enter (scenario_A faulty3))) =
     [[(1, 0, Some V0), (2, 0, Some V0), (3, 0, Some V0)],
      [(0, 0, Some V0), (2, 0, Some V0), (3, 0, Some V0)],
      [(0, 0, Some V0), (1, 0, Some V0), (3, 0, Some V0)],
      (if faulty3 then [] else [(0, 0, Some V1), (1, 0, Some V1), (2, 0, Some V1)])]"
proof (cases faulty3)
  case True
  then show ?thesis
    apply (simp only: entered_silent list.map)
    apply (simp add: net_eval)
    done
next
  case False
  then show ?thesis
    apply (simp only: entered_live list.map)
    apply (simp add: net_eval)
    done
qed

lemma zero_votes_sent_A:
  "map (count_list (concat (map (\<lambda>p. sent (local_node p))
          (map (net_begin 0) (map enter (scenario_A faulty3))))))
       [(0, 0, Some V0), (1, 0, Some V0), (2, 0, Some V0)] = [2, 2, 2]"
  by (simp only: begun_A) simp

text \<open>
  C6 (amended). With \<open>N = 4\<close> and \<open>F = 1\<close>, nodes 0, 1 and 2 starting with 0 and node 3
  starting with 1 or being faulty. The broadcasts of round 0 hold exactly 2 votes for 0
  for each of the three, its own vote not being among them. In whatever order requests
  arrive, a node of this network that holds at most 2 votes for 0 when it counts round
  0 does not end with \<open>x = 0\<close>, \<open>decided = true\<close>, \<open>k = 0\<close>, since \<open>N - F = 3\<close>. When all
  nodes start together and every vote of a round arrives while its receiver waits in
  that round, each of the three holds \<open>x = 0\<close> after round 0, with 2 votes for 0,
  undecided and still in the loop, and the three end with \<open>x = 1\<close>, \<open>decided = true\<close>,
  \<open>k = 2\<close>, by the forced decision; a live node 3 then receives three votes for 0 and
  decides 0 in round 0.
\<close>

theorem scenario_A_forced:
  "map (count_list (concat (map (\<lambda>p. sent (local_node p))
          (map (net_begin 0) (map enter (scenario_A faulty3))))))
       [(0, 0, Some V0), (1, 0, Some V0), (2, 0, Some V0)] = [2, 2, 2]
   \<and> (decided (nodeState nd) \<noteq> Some True
        \<and> count_list (round_messages nd 0) (Some V0)
            + count_list (sched 0) (Message 0 (Some V0)) \<le> 2 \<longrightarrow>
        \<not> (decided (nodeState (snd (start (four_one i False) coin sched nd))) = Some True
           \<and> x (nodeState (snd (start (four_one i False) coin sched nd))) = Some V0
           \<and> k (nodeState (snd (start (four_one i False) coin sched nd))) = Some 0))
   \<and> map (\<lambda>p. (x (nodeState (local_node p)),
             count_list (round_messages (local_node p) 0) (Some V0),
             N (params p) - F (params p),
             decided (nodeState (local_node p)),
             in_loop p))
       (take 3 (net_round coins 0 (map enter (scenario_A faulty3))))
     = [(Some V0, 2, 3, Some False, True),
        (Some V0, 2, 3, Some False, True),
        (Some V0, 2, 3, Some False, True)]
   \<and> map (\<lambda>p. nodeState (local_node p)) (take 3 (net_run coins (scenario_A faulty3)))
     = [\<lparr>killed = False, x = Some V1, decided = Some True, k = Some 2\<rparr>,
        \<lparr>killed = False, x = Some V1, decided = Some True, k = Some 2\<rparr>,
        \<lparr>killed = False, x = Some V1, decided = Some True, k = Some 2\<rparr>]
   \<and> nodeState (local_node (net_run coins (scenario_A False) ! 3))
     = \<lparr>killed = False, x = Some V0, decided = Some True, k = Some 0\<rparr>
   \<and> count_list (round_messages (local_node (net_run coins (scenario_A False) ! 3)) 0) (Some V0)
     = 3"
proof -
  have a2: "decided (nodeState nd) \<noteq> Some True
        \<and> count_list (round_messages nd 0) (Some V0)
            + count_list (sched 0) (Message 0 (Some V0)) \<le> 2 \<longrightarrow>
        \<not> (decided (nodeState (snd (start (four_one i False) coin sched nd))) = Some True
           \<and> x (nodeState (snd (start (four_one i False) coin sched nd))) = Some V0
           \<and> k (nodeState (snd (start (four_one i False) coin sched nd))) = Some 0)"
  proof (intro impI notI, elim conjE)
    assume und: "decided (nodeState nd) \<noteq> Some True"
      and few: "count_list (round_messages nd 0) (Some V0)
            + count_list (sched 0) (Message 0 (Some V0)) \<le> 2"
      and d: "decided (nodeState (snd (start (four_one i False) coin sched nd))) = Some True"
      and b: "x (nodeState (snd (start (four_one i False) coin sched nd))) = Some V0"
      and r: "k (nodeState (snd (start (four_one i False) coin sched nd))) = Some 0"
    from start_round_0_decision[OF und d b r]
    have "3 \<le> int (count_list (round_messages nd 0) (Some V0)
                   + count_list (sched 0) (Message 0 (Some V0)))"
      by (simp add: four_one_def)
    with few show False by linarith
  qed
  have rest: "map (\<lambda>p. (x (nodeState (local_node p)),
             count_list (round_messages (local_node p) 0) (Some V0),
             N (params p) - F (params p),
             decided (nodeState (local_node p)),
             in_loop p))
       (take 3 (net_round coins 0 (map enter (scenario_A faulty3))))
     = [(Some V0, 2, 3, Some False, True),
        (Some V0, 2, 3, Some False, True),
        (Some V0, 2, 3, Some False, True)]
   \<and> map (\<lambda>p. nodeState (local_node p)) (take 3 (net_run coins (scenario_A faulty3)))
     = [\<lparr>killed = False, x = Some V1, decided = Some True, k = Some 2\<rparr>,
        \<lparr>killed = False, x = Some V1, decided = Some True, k = Some 2\<rparr>,
        \<lparr>killed = False, x = Some V1, decided = Some True, k = Some 2\<rparr>]
   \<and> nodeState (local_node (net_run coins (scenario_A False) ! 3))
     = \<lparr>killed = False, x = Some V0, decided = Some True, k = Some 0\<rparr>
   \<and> count_list (round_messages (local_node (net_run coins (scenario_A False) ! 3)) 0) (Some V0)
     = 3"
  proof (cases faulty3)
    case True
    then show ?thesis
      by (simp add: silent_round_0 silent_end live_end four_one_def round_messages_def)
  next
    case False
    then show ?thesis
      by (simp add: live_round_0 live_end four_one_def round_messages_def)
  qed
  from zero_votes_sent_A[of faulty3] a2 rest show ?thesis by (intro conjI) simp_all
qed

theorem scenario_A_forced_witness:
  "decided (nodeState (initial False V0)) \<noteq> Some True
   \<and> count_list (round_messages (initial False V0) 0) (Some V0)
       + count_list (peers_votes_A 0) (Message 0 (Some V0)) \<le> 2
   \<and> nodeState (snd (start (four_one 0 False) heads peers_votes_A (initial False V0)))
     = \<lparr>killed = False, x = Some V1, decided = Some True, k = Some 2\<rparr>
   \<and> map (\<lambda>p. nodeState (local_node p)) (take 3 (net_run (\<lambda>i r. True) (scenario_A True)))
     = [\<lparr>killed = False, x = Some V1, decided = Some True, k = Some 2\<rparr>,
        \<lparr>killed = False, x = Some V1, decided = Some True, k = Some 2\<rparr>,
        \<lparr>killed = False, x = Some V1, decided = Some True, k = Some 2\<rparr>]"
  using scenario_A_forced[of True "initial False V0" peers_votes_A 0 heads "\<lambda>i r. True"]
  by (simp add: run_defs four_one_def peers_votes_A_def heads_def)

text \<open>
  The claim as stated fails for node 0 in both readings: it has 2 votes for 0 after
  round 0, is undecided then, and ends with \<open>x = 1\<close> and \<open>k = 2\<close>.
\<close>

theorem scenario_A_not_decided_in_round_0:
  "count_list (round_messages
       (local_node (net_round (\<lambda>i r. True) 0 (map enter (scenario_A True)) ! 0)) 0) (Some V0) = 2
   \<and> decided (nodeState
       (local_node (net_round (\<lambda>i r. True) 0 (map enter (scenario_A True)) ! 0))) = Some False
   \<and> nodeState (local_node (net_run (\<lambda>i r. True) (scenario_A True) ! 0))
     = \<lparr>killed = False, x = Some V1, decided = Some True, k = Some 2\<rparr>
   \<and> count_list (round_messages
       (local_node (net_round (\<lambda>i r. True) 0 (map enter (scenario_A False)) ! 0)) 0) (Some V0) = 2
   \<and> decided (nodeState
       (local_node (net_round (\<lambda>i r. True) 0 (map enter (scenario_A False)) ! 0))) = Some False
   \<and> nodeState (local_node (net_run (\<lambda>i r. True) (scenario_A False) ! 0))
     = \<lparr>killed = False, x = Some V1, decided = Some True, k = Some 2\<rparr>"
  by (simp add: silent_round_0 silent_end live_round_0 live_end round_messages_def)

end
